theory Spec2Isabelle
  imports Main "HOL-Library.Multiset"
begin

section \<open>JavaScript values as the parsers see them\<close>

text \<open>
  The parsers of \<^verbatim>\<open>app.js\<close> receive the result of \<^verbatim>\<open>JSON.parse\<close>: null, a boolean,
  a number, a string, an array or a plain object. Objects are association lists (the first
  binding of a key is the property). Numbers are integers: the program only ever tests a
  number for truthiness, and the timestamps of an export are whole epoch seconds.
  Strings are \<open>char list\<close>s.
\<close>

datatype json =
    JNull
  | JBool bool
  | JNum int
  | JStr string
  | JArr "json list"
  | JObj "(string \<times> json) list"

text \<open>
  What the program can throw: \<^verbatim>\<open>new Error(message)\<close>, raised by the parsers on a format
  they do not recognise, and the \<^verbatim>\<open>TypeError\<close> of the JavaScript runtime (reading a property
  of \<^verbatim>\<open>null\<close>, calling something that is not a function).
\<close>

datatype js_error = Error string | TypeError

definition bindE :: "'e + 'a \<Rightarrow> ('a \<Rightarrow> 'e + 'b) \<Rightarrow> 'e + 'b" where
  "bindE m f = (case m of Inl e \<Rightarrow> Inl e | Inr x \<Rightarrow> f x)"

text \<open>JavaScript truthiness; \<open>None\<close> stands for \<^verbatim>\<open>undefined\<close>.\<close>

fun truthy :: "json \<Rightarrow> bool" where
  "truthy JNull = False"
| "truthy (JBool b) = b"
| "truthy (JNum n) = (n \<noteq> 0)"
| "truthy (JStr s) = (s \<noteq> [])"
| "truthy (JArr xs) = True"
| "truthy (JObj kvs) = True"

fun truthyOpt :: "json option \<Rightarrow> bool" where
  "truthyOpt None = False"
| "truthyOpt (Some v) = truthy v"

text \<open>
  \<^verbatim>\<open>v.k\<close> for the property names this program reads (\<^verbatim>\<open>string_list_data\<close>, \<^verbatim>\<open>value\<close>,
  \<^verbatim>\<open>title\<close>, \<^verbatim>\<open>timestamp\<close>, \<^verbatim>\<open>href\<close>, \<^verbatim>\<open>relationships_following\<close>, \<^verbatim>\<open>username\<close>): a
  TypeError on \<^verbatim>\<open>null\<close>, the own property of an object, and \<^verbatim>\<open>undefined\<close> on booleans,
  numbers, strings and arrays, whose prototypes define none of these names.
\<close>

fun getProp :: "json \<Rightarrow> string \<Rightarrow> js_error + json option" where
  "getProp JNull k = Inl TypeError"
| "getProp (JObj kvs) k = Inr (map_of kvs k)"
| "getProp (JBool b) k = Inr None"
| "getProp (JNum n) k = Inr None"
| "getProp (JStr s) k = Inr None"
| "getProp (JArr xs) k = Inr None"

text \<open>\<^verbatim>\<open>v?.[0]\<close>: \<^verbatim>\<open>undefined\<close> on \<^verbatim>\<open>undefined\<close> and \<^verbatim>\<open>null\<close>, else the element or property 0.\<close>

fun index0 :: "json option \<Rightarrow> json option" where
  "index0 None = None"
| "index0 (Some JNull) = None"
| "index0 (Some (JArr xs)) = (case xs of [] \<Rightarrow> None | x # _ \<Rightarrow> Some x)"
| "index0 (Some (JStr s)) = (case s of [] \<Rightarrow> None | c # _ \<Rightarrow> Some (JStr [c]))"
| "index0 (Some (JObj kvs)) = map_of kvs ''0''"
| "index0 (Some (JBool b)) = None"
| "index0 (Some (JNum n)) = None"

text \<open>\<^verbatim>\<open>x || null\<close> and \<^verbatim>\<open>x || {}\<close>.\<close>

fun orNull :: "json option \<Rightarrow> json" where
  "orNull None = JNull"
| "orNull (Some v) = (if truthy v then v else JNull)"

fun orEmptyObject :: "json option \<Rightarrow> json" where
  "orEmptyObject None = JObj []"
| "orEmptyObject (Some v) = (if truthy v then v else JObj [])"

section \<open>InstagramDataParser\<close>

text \<open>
  The object literal \<^verbatim>\<open>{ username: name, timestamp: data.timestamp || null,
  href: data.href || null }\<close>.
\<close>

definition userRecord :: "json \<Rightarrow> json \<Rightarrow> js_error + json" where
  "userRecord name data =
     bindE (getProp data ''timestamp'') (\<lambda>t.
     bindE (getProp data ''href'') (\<lambda>h.
       Inr (JObj [(''username'', name), (''timestamp'', orNull t), (''href'', orNull h)])))"

text \<open>
  \<^verbatim>\<open>xs.forEach(callback)\<close> where the callback pushes onto the local array \<^verbatim>\<open>users\<close>: the
  array is threaded through, and an exception of the callback ends the loop.
\<close>

fun forEach :: "('a \<Rightarrow> json list \<Rightarrow> js_error + json list) \<Rightarrow> 'a list \<Rightarrow> json list
    \<Rightarrow> js_error + json list" where
  "forEach f [] users = Inr users"
| "forEach f (x # xs) users = bindE (f x users) (forEach f xs)"

text \<open>
  The callback on the entries of \<^verbatim>\<open>string_list_data\<close>:
  \<^verbatim>\<open>data => { if (data.value) { users.push({username: data.value, ...}) } }\<close>.
\<close>

definition pushEntry :: "json \<Rightarrow> json list \<Rightarrow> js_error + json list" where
  "pushEntry data users =
     bindE (getProp data ''value'') (\<lambda>v.
       case v of
         None \<Rightarrow> Inr users
       | Some name \<Rightarrow>
           if truthy name then bindE (userRecord name data) (\<lambda>u. Inr (users @ [u]))
           else Inr users)"

text \<open>
  The guarded loop of \<^verbatim>\<open>parseFollowers\<close> and of the bare-array branch of
  \<^verbatim>\<open>parseFollowing\<close>:
  \<^verbatim>\<open>if (item.string_list_data && Array.isArray(item.string_list_data)) { ...forEach... }\<close>.
\<close>

definition entriesGuarded :: "json \<Rightarrow> json list \<Rightarrow> js_error + json list" where
  "entriesGuarded item users =
     bindE (getProp item ''string_list_data'') (\<lambda>sld.
       case sld of
         Some (JArr ds) \<Rightarrow> forEach pushEntry ds users
       | _ \<Rightarrow> Inr users)"

text \<open>
  The loop of the \<^verbatim>\<open>relationships_following\<close> branch, guarded by truthiness only:
  \<^verbatim>\<open>if (item.string_list_data) { item.string_list_data.forEach(...) }\<close>. A truthy value
  that is not an array has no \<^verbatim>\<open>forEach\<close> function.
\<close>

definition entriesUnguarded :: "json \<Rightarrow> json list \<Rightarrow> js_error + json list" where
  "entriesUnguarded item users =
     bindE (getProp item ''string_list_data'') (\<lambda>sld.
       if truthyOpt sld then
         (case sld of
            Some (JArr ds) \<Rightarrow> forEach pushEntry ds users
          | _ \<Rightarrow> Inl TypeError)
       else Inr users)"

text \<open>
  The title branch: \<^verbatim>\<open>const data = item.string_list_data?.[0] || {}; users.push({username:
  item.title, ...})\<close>.
\<close>

definition pushTitle :: "json \<Rightarrow> json \<Rightarrow> json list \<Rightarrow> js_error + json list" where
  "pushTitle item title users =
     bindE (getProp item ''string_list_data'') (\<lambda>sld.
     bindE (userRecord title (orEmptyObject (index0 sld))) (\<lambda>u.
       Inr (users @ [u])))"

text \<open>
  The callback on the elements of a following export:
  \<^verbatim>\<open>if (item.title) {...} else if (...) {...}\<close>, with the fallback loop as a parameter
  (guarded in the bare-array branch, unguarded under \<^verbatim>\<open>relationships_following\<close>).
\<close>

definition followingItem :: "(json \<Rightarrow> json list \<Rightarrow> js_error + json list)
    \<Rightarrow> json \<Rightarrow> json list \<Rightarrow> js_error + json list" where
  "followingItem fallback item users =
     bindE (getProp item ''title'') (\<lambda>t.
       case t of
         None \<Rightarrow> fallback item users
       | Some title \<Rightarrow>
           if truthy title then pushTitle item title users else fallback item users)"

definition msgEmpty :: string where
  "msgEmpty = ''File appears to be empty''"

definition msgFollowersNotArray :: string where
  "msgFollowersNotArray =
     ''Expected Instagram export format. File should contain an array of follower data.''"

definition msgFollowersUnrecognized :: string where
  "msgFollowersUnrecognized =
     ''Unrecognized file format. Make sure you uploaded the followers_1.json file from Instagram export.''"

definition msgFollowingUnrecognized :: string where
  "msgFollowingUnrecognized =
     ''Unrecognized file format. Make sure you uploaded the following.json file from Instagram export.''"

definition msgFollowingShape :: string where
  "msgFollowingShape =
     ''Expected Instagram export format. File should contain following data or relationships_following array.''"

text \<open>
  \<^verbatim>\<open>parseFollowers(jsonData)\<close>. The \<^verbatim>\<open>catch\<close> clause logs and rethrows, so the thrown value
  is the result. In \<^verbatim>\<open>!firstItem.string_list_data && !firstItem.value\<close> only the first
  read can throw (on a \<^verbatim>\<open>null\<close> first item), and both reads have no effect, so reading
  both before testing is the same.
\<close>

definition parseFollowers :: "json \<Rightarrow> js_error + json list" where
  "parseFollowers jsonData =
     (if \<not> truthy jsonData then Inl (Error msgEmpty)
      else case jsonData of
        JArr items \<Rightarrow>
          (case items of
             [] \<Rightarrow> Inr []
           | firstItem # _ \<Rightarrow>
               bindE (getProp firstItem ''string_list_data'') (\<lambda>s.
               bindE (getProp firstItem ''value'') (\<lambda>v.
                 if \<not> truthyOpt s \<and> \<not> truthyOpt v then Inl (Error msgFollowersUnrecognized)
                 else forEach entriesGuarded items [])))
      | _ \<Rightarrow> Inl (Error msgFollowersNotArray))"

text \<open>
  \<^verbatim>\<open>parseFollowing(jsonData)\<close>: a bare array, or an object (any truthy value that is not an
  array) with a truthy \<^verbatim>\<open>relationships_following\<close>, on which \<^verbatim>\<open>forEach\<close> is called
  whatever it is.
\<close>

definition parseFollowing :: "json \<Rightarrow> js_error + json list" where
  "parseFollowing jsonData =
     (if \<not> truthy jsonData then Inl (Error msgEmpty)
      else case jsonData of
        JArr items \<Rightarrow>
          (case items of
             [] \<Rightarrow> Inr []
           | firstItem # _ \<Rightarrow>
               bindE (getProp firstItem ''title'') (\<lambda>t.
               bindE (getProp firstItem ''string_list_data'') (\<lambda>s.
               bindE (getProp firstItem ''value'') (\<lambda>v.
                 if \<not> truthyOpt t \<and> \<not> truthyOpt s \<and> \<not> truthyOpt v
                 then Inl (Error msgFollowingUnrecognized)
                 else forEach (followingItem entriesGuarded) items []))))
      | _ \<Rightarrow>
          bindE (getProp jsonData ''relationships_following'') (\<lambda>r.
            if truthyOpt r then
              (case r of
                 Some (JArr items) \<Rightarrow> forEach (followingItem entriesUnguarded) items []
               | _ \<Rightarrow> Inl TypeError)
            else Inl (Error msgFollowingShape)))"

section \<open>ComparisonEngine\<close>

text \<open>
  \<^verbatim>\<open>String.prototype.toLowerCase\<close> on the ASCII letters, which are the letters an Instagram
  username can hold. The theorems below use nothing about it except that it is a function.
\<close>

definition toLowerChar :: "char \<Rightarrow> char" where
  "toLowerChar c =
     (case map_of (zip ''ABCDEFGHIJKLMNOPQRSTUVWXYZ'' ''abcdefghijklmnopqrstuvwxyz'') c of
        Some l \<Rightarrow> l
      | None \<Rightarrow> c)"

definition toLowerCase :: "string \<Rightarrow> string" where
  "toLowerCase s = map toLowerChar s"

text \<open>
  \<^verbatim>\<open>u.username.toLowerCase()\<close>: a TypeError when \<^verbatim>\<open>u\<close> is \<^verbatim>\<open>null\<close> or when
  \<^verbatim>\<open>u.username\<close> is not a string (no \<^verbatim>\<open>toLowerCase\<close> method to call).
\<close>

definition lowerName :: "json \<Rightarrow> js_error + string" where
  "lowerName u =
     bindE (getProp u ''username'') (\<lambda>n.
       case n of
         Some (JStr s) \<Rightarrow> Inr (toLowerCase s)
       | _ \<Rightarrow> Inl TypeError)"

text \<open>\<^verbatim>\<open>xs.map(f)\<close> and \<^verbatim>\<open>xs.filter(p)\<close> with a callback that may throw; both build a new array.\<close>

fun mapE :: "('a \<Rightarrow> 'e + 'b) \<Rightarrow> 'a list \<Rightarrow> 'e + 'b list" where
  "mapE f [] = Inr []"
| "mapE f (x # xs) = bindE (f x) (\<lambda>y. bindE (mapE f xs) (\<lambda>ys. Inr (y # ys)))"

fun filterE :: "('a \<Rightarrow> 'e + bool) \<Rightarrow> 'a list \<Rightarrow> 'e + 'a list" where
  "filterE p [] = Inr []"
| "filterE p (x # xs) =
     bindE (p x) (\<lambda>b. bindE (filterE p xs) (\<lambda>ys. Inr (if b then x # ys else ys)))"

text \<open>
  \<^verbatim>\<open>const currentSet = new Set(currentFollowers.map(u => u.username.toLowerCase()));
  return previousFollowers.filter(u => !currentSet.has(u.username.toLowerCase()));\<close>
\<close>

definition findUnfollowers :: "json list \<Rightarrow> json list \<Rightarrow> js_error + json list" where
  "findUnfollowers previousFollowers currentFollowers =
     bindE (mapE lowerName currentFollowers) (\<lambda>keys.
       let currentSet = set keys in
       filterE (\<lambda>u. bindE (lowerName u) (\<lambda>k. Inr (k \<notin> currentSet))) previousFollowers)"

definition findNewFollowers :: "json list \<Rightarrow> json list \<Rightarrow> js_error + json list" where
  "findNewFollowers previousFollowers currentFollowers =
     bindE (mapE lowerName previousFollowers) (\<lambda>keys.
       let previousSet = set keys in
       filterE (\<lambda>u. bindE (lowerName u) (\<lambda>k. Inr (k \<notin> previousSet))) currentFollowers)"

definition findNotFollowingBack :: "json list \<Rightarrow> json list \<Rightarrow> js_error + json list" where
  "findNotFollowingBack followers following =
     bindE (mapE lowerName followers) (\<lambda>keys.
       let followersSet = set keys in
       filterE (\<lambda>u. bindE (lowerName u) (\<lambda>k. Inr (k \<notin> followersSet))) following)"

section \<open>DatabaseManager\<close>

text \<open>
  The two object stores. A snapshot's \<open>date\<close> is the instant of \<^verbatim>\<open>new Date()\<close> in
  milliseconds (the source stores its ISO string and sorts on the parsed instant).
  \<open>snapshotStore\<close> is in key order, as \<^verbatim>\<open>getAll()\<close> returns it; \<open>keyGenerator\<close> is the
  auto-increment key of the store. \<open>isAvailable\<close> stands for
  \<^verbatim>\<open>this.isAvailable && this.db\<close>. The settings store is modelled for its username-array
  values (the key \<^verbatim>\<open>whitelist\<close>). An IndexedDB request that signals \<^verbatim>\<open>onerror\<close> is a fault
  of the environment and is outside this model: every request on an available store succeeds.
\<close>

record snapshot =
  snapshotId :: nat
  date :: int
  followers :: "json list"
  following :: "json list"

record database =
  isAvailable :: bool
  snapshotStore :: "snapshot list"
  keyGenerator :: nat
  settingsStore :: "string \<rightharpoonup> string list"

definition saveSnapshot :: "database \<Rightarrow> int \<Rightarrow> json list \<Rightarrow> json list \<Rightarrow> database \<times> nat option" where
  "saveSnapshot d now fs fg =
     (if \<not> isAvailable d then (d, None)
      else
        (d\<lparr>snapshotStore := snapshotStore d @
              [\<lparr>snapshotId = keyGenerator d, date = now, followers = fs, following = fg\<rparr>],
           keyGenerator := keyGenerator d + 1\<rparr>,
         Some (keyGenerator d)))"

definition getSnapshots :: "database \<Rightarrow> snapshot list" where
  "getSnapshots d = (if \<not> isAvailable d then [] else snapshotStore d)"

text \<open>
  \<^verbatim>\<open>snapshots.sort((a, b) => new Date(b.date) - new Date(a.date))\<close>: a stable sort, newest
  first.
\<close>

definition sortNewestFirst :: "snapshot list \<Rightarrow> snapshot list" where
  "sortNewestFirst snapshots = sort_key (\<lambda>s. - date s) snapshots"

definition getLatestSnapshot :: "database \<Rightarrow> snapshot option" where
  "getLatestSnapshot d =
     (let snapshots = getSnapshots d in
      if length snapshots = 0 then None
      else (case sortNewestFirst snapshots of [] \<Rightarrow> None | s # _ \<Rightarrow> Some s))"

definition getPreviousSnapshot :: "database \<Rightarrow> snapshot option" where
  "getPreviousSnapshot d =
     (let snapshots = getSnapshots d in
      if length snapshots < 2 then None
      else (case sortNewestFirst snapshots of s0 # s1 # _ \<Rightarrow> Some s1 | _ \<Rightarrow> None))"

definition saveSetting :: "database \<Rightarrow> string \<Rightarrow> string list \<Rightarrow> database" where
  "saveSetting d key v =
     (if \<not> isAvailable d then d else d\<lparr>settingsStore := (settingsStore d)(key \<mapsto> v)\<rparr>)"

definition getSetting :: "database \<Rightarrow> string \<Rightarrow> string list option" where
  "getSetting d key = (if \<not> isAvailable d then None else settingsStore d key)"

text \<open>\<^verbatim>\<open>return whitelist || []\<close>: a stored array is truthy, also when empty.\<close>

definition getWhitelist :: "database \<Rightarrow> string list" where
  "getWhitelist d = (case getSetting d ''whitelist'' of None \<Rightarrow> [] | Some w \<Rightarrow> w)"

text \<open>
  \<^verbatim>\<open>addToWhitelist\<close> writes only when the lower-cased name is new; \<^verbatim>\<open>removeFromWhitelist\<close>
  always writes the filtered array. The argument is a string (the callers pass the
  \<^verbatim>\<open>username\<close> of a displayed record).
\<close>

definition addToWhitelist :: "database \<Rightarrow> string \<Rightarrow> database" where
  "addToWhitelist d username =
     (let whitelist = getWhitelist d;
          lowerUsername = toLowerCase username
      in if lowerUsername \<notin> set whitelist
         then saveSetting d ''whitelist'' (whitelist @ [lowerUsername])
         else d)"

definition removeFromWhitelist :: "database \<Rightarrow> string \<Rightarrow> database" where
  "removeFromWhitelist d username =
     (let whitelist = getWhitelist d;
          lowerUsername = toLowerCase username;
          newWhitelist = filter (\<lambda>u. u \<noteq> lowerUsername) whitelist
      in saveSetting d ''whitelist'' newWhitelist)"

definition isWhitelisted :: "database \<Rightarrow> string \<Rightarrow> bool" where
  "isWhitelisted d username = (toLowerCase username \<in> set (getWhitelist d))"

section \<open>UIController\<close>

text \<open>
  The fields of the controller that the analysis and the list views read and write.
  \<open>uploadedFollowers\<close> and \<open>uploadedFollowing\<close> are \<^verbatim>\<open>this.uploadedFiles.followers.data\<close>
  and \<^verbatim>\<open>this.uploadedFiles.following.data\<close>, \<open>None\<close> when the entry is missing.
\<close>

record results =
  followers :: "json list"
  following :: "json list"
  unfollowers :: "json list"
  newFollowers :: "json list"
  notFollowingBack :: "json list"

record ui =
  db :: database
  uploadedFollowers :: "json option"
  uploadedFollowing :: "json option"
  currentData :: "results option"
  currentTab :: string
  searchQuery :: string
  whitelist :: "string list"

text \<open>
  The calls \<^verbatim>\<open>analyzeData\<close> makes, in the order it makes them; the engine calls carry their
  arguments.
\<close>

datatype event =
    NormalizeFollowers
  | NormalizeFollowing
  | GetLatestSnapshot
  | SaveSnapshot
  | FindUnfollowers "json list" "json list"
  | FindNewFollowers "json list" "json list"
  | FindNotFollowingBack "json list" "json list"

datatype toast = ToastUploadBoth | ToastError js_error | ToastComplete

text \<open>
  The comparisons of \<^verbatim>\<open>analyzeData\<close>:
  \<^verbatim>\<open>let unfollowers = []; let newFollowers = [];
  if (previousSnapshot) { unfollowers = findUnfollowers(previousSnapshot.followers, followers);
  newFollowers = findNewFollowers(previousSnapshot.followers, followers); }
  const notFollowingBack = findNotFollowingBack(followers, following);\<close>
  with the engine calls made up to the first exception.
\<close>

definition calculateComparisons :: "snapshot option \<Rightarrow> json list \<Rightarrow> json list
    \<Rightarrow> event list \<times> (js_error + results)" where
  "calculateComparisons previousSnapshot fs fg =
     (case previousSnapshot of
        None \<Rightarrow>
          ([FindNotFollowingBack fs fg],
           bindE (findNotFollowingBack fs fg) (\<lambda>n.
             Inr \<lparr>followers = fs, following = fg, unfollowers = [], newFollowers = [],
                  notFollowingBack = n\<rparr>))
      | Some p \<Rightarrow>
          (case findUnfollowers (snapshot.followers p) fs of
             Inl e \<Rightarrow> ([FindUnfollowers (snapshot.followers p) fs], Inl e)
           | Inr un \<Rightarrow>
               (case findNewFollowers (snapshot.followers p) fs of
                  Inl e \<Rightarrow>
                    ([FindUnfollowers (snapshot.followers p) fs,
                      FindNewFollowers (snapshot.followers p) fs], Inl e)
                | Inr nw \<Rightarrow>
                    ([FindUnfollowers (snapshot.followers p) fs,
                      FindNewFollowers (snapshot.followers p) fs,
                      FindNotFollowingBack fs fg],
                     bindE (findNotFollowingBack fs fg) (\<lambda>n.
                       Inr \<lparr>followers = fs, following = fg, unfollowers = un,
                            newFollowers = nw, notFollowingBack = n\<rparr>)))))"

text \<open>
  \<^verbatim>\<open>analyzeData()\<close> at the instant \<open>now\<close>: the new controller state, the calls made and the
  toast shown. An exception is caught and reported; what was written before it stays.
\<close>

definition analyzeData :: "int \<Rightarrow> ui \<Rightarrow> ui \<times> event list \<times> toast" where
  "analyzeData now u =
     (case uploadedFollowers u of
        None \<Rightarrow> (u, [], ToastUploadBoth)
      | Some fj \<Rightarrow>
     (case uploadedFollowing u of
        None \<Rightarrow> (u, [], ToastUploadBoth)
      | Some gj \<Rightarrow>
     (case parseFollowers fj of
        Inl e \<Rightarrow> (u, [NormalizeFollowers], ToastError e)
      | Inr fs \<Rightarrow>
     (case parseFollowing gj of
        Inl e \<Rightarrow> (u, [NormalizeFollowers, NormalizeFollowing], ToastError e)
      | Inr fg \<Rightarrow>
          (let previousSnapshot = getLatestSnapshot (db u);
               u1 = u\<lparr>db := fst (saveSnapshot (db u) now fs fg)\<rparr>;
               cmp = calculateComparisons previousSnapshot fs fg;
               calls = [NormalizeFollowers, NormalizeFollowing, GetLatestSnapshot, SaveSnapshot]
                         @ fst cmp
           in case snd cmp of
                Inl e \<Rightarrow> (u1, calls, ToastError e)
              | Inr r \<Rightarrow> (u1\<lparr>currentData := Some r\<rparr>, calls, ToastComplete))))))"

text \<open>\<^verbatim>\<open>s.includes(q)\<close> on strings: \<open>q\<close> occurs in \<open>s\<close>.\<close>

fun includesStr :: "string \<Rightarrow> string \<Rightarrow> bool" where
  "includesStr [] q = (q = [])"
| "includesStr (c # s) q = (take (length q) (c # s) = q \<or> includesStr s q)"

text \<open>The \<^verbatim>\<open>switch (this.currentTab)\<close> of \<^verbatim>\<open>renderUserList\<close>; no case matching leaves \<^verbatim>\<open>[]\<close>.\<close>

definition tabUsers :: "ui \<Rightarrow> results \<Rightarrow> js_error + json list" where
  "tabUsers u r =
     (if currentTab u = ''unfollowers'' then Inr (unfollowers r)
      else if currentTab u = ''newFollowers'' then Inr (newFollowers r)
      else if currentTab u = ''notFollowingBack'' then
        filterE (\<lambda>x. bindE (lowerName x) (\<lambda>k. Inr (k \<notin> set (whitelist u)))) (notFollowingBack r)
      else if currentTab u = ''whitelist'' then
        filterE (\<lambda>x. bindE (lowerName x) (\<lambda>k. Inr (k \<in> set (whitelist u)))) (notFollowingBack r)
      else if currentTab u = ''followers'' then Inr (results.followers r)
      else if currentTab u = ''following'' then Inr (results.following r)
      else Inr [])"

text \<open>
  The users \<^verbatim>\<open>renderUserList()\<close> puts on the screen: nothing (\<open>None\<close>) without
  \<^verbatim>\<open>currentData\<close>; else the tab's users,
  \<^verbatim>\<open>if (this.searchQuery) users = users.filter(u =>
  u.username.toLowerCase().includes(this.searchQuery))\<close>.
\<close>

definition renderUserList :: "ui \<Rightarrow> (js_error + json list) option" where
  "renderUserList u =
     (case currentData u of
        None \<Rightarrow> None
      | Some r \<Rightarrow>
          Some (bindE (tabUsers u r) (\<lambda>users.
            if searchQuery u \<noteq> [] then
              filterE (\<lambda>x. bindE (lowerName x) (\<lambda>k. Inr (includesStr k (searchQuery u)))) users
            else Inr users)))"

section \<open>Vocabulary of the properties\<close>

text \<open>
  \<open>field v k\<close> is the property \<open>k\<close> of \<open>v\<close> where reading it cannot throw: \<^verbatim>\<open>undefined\<close>
  (\<open>None\<close>) on everything that is not an object.
\<close>

fun field :: "json \<Rightarrow> string \<Rightarrow> json option" where
  "field (JObj kvs) k = map_of kvs k"
| "field v k = None"

fun isArray :: "json \<Rightarrow> bool" where
  "isArray (JArr xs) = True"
| "isArray v = False"

text \<open>
  A user record in the sense of the engine: an object whose \<^verbatim>\<open>username\<close> is a string. Its
  normalized key is that string in lower case.
\<close>

fun usernameString :: "json \<Rightarrow> string option" where
  "usernameString (JObj kvs) =
     (case map_of kvs ''username'' of Some (JStr s) \<Rightarrow> Some s | _ \<Rightarrow> None)"
| "usernameString v = None"

definition isUserRecord :: "json \<Rightarrow> bool" where
  "isUserRecord u = (usernameString u \<noteq> None)"

definition normalizedKey :: "json \<Rightarrow> string" where
  "normalizedKey u = (case usernameString u of Some s \<Rightarrow> toLowerCase s | None \<Rightarrow> [])"

text \<open>
  The first element of a followers export lacks both \<^verbatim>\<open>string_list_data\<close> and \<^verbatim>\<open>value\<close>,
  a field counting as held when its value is truthy.
\<close>

fun firstLacksBoth :: "json \<Rightarrow> bool" where
  "firstLacksBoth (JArr (firstItem # rest)) =
     (\<not> truthyOpt (field firstItem ''string_list_data'') \<and> \<not> truthyOpt (field firstItem ''value''))"
| "firstLacksBoth v = False"

text \<open>
  The entries of an element: those of its \<^verbatim>\<open>string_list_data\<close> when that is an array, none
  otherwise.
\<close>

definition entriesOf :: "json \<Rightarrow> json list" where
  "entriesOf item = (case field item ''string_list_data'' of Some (JArr ds) \<Rightarrow> ds | _ \<Rightarrow> [])"

text \<open>No element of the export and no entry of an element is \<^verbatim>\<open>null\<close>.\<close>

fun noNullEntries :: "json \<Rightarrow> bool" where
  "noNullEntries (JArr items) =
     (\<forall>item \<in> set items. item \<noteq> JNull \<and> JNull \<notin> set (entriesOf item))"
| "noNullEntries v = True"

text \<open>
  One record per entry that holds a (truthy) \<^verbatim>\<open>value\<close>, in the order of the export: the
  result the specification describes for a followers export.
\<close>

definition entryRecord :: "json \<Rightarrow> json list" where
  "entryRecord data =
     (case field data ''value'' of
        None \<Rightarrow> []
      | Some name \<Rightarrow>
          if truthy name
          then [JObj [(''username'', name), (''timestamp'', orNull (field data ''timestamp'')),
                      (''href'', orNull (field data ''href''))]]
          else [])"

fun followerRecords :: "json \<Rightarrow> json list" where
  "followerRecords (JArr items) = concat (map (\<lambda>item. concat (map entryRecord (entriesOf item))) items)"
| "followerRecords v = []"



definition titleOf :: "json \<Rightarrow> json" where
  "titleOf item = (case field item ''title'' of Some t \<Rightarrow> t | None \<Rightarrow> JNull)"

text \<open>An object without its property \<open>k\<close>, and the property names of an object.\<close>

definition delProp :: "string \<Rightarrow> (string \<times> json) list \<Rightarrow> (string \<times> json) list" where
  "delProp k kvs = filter (\<lambda>kv. fst kv \<noteq> k) kvs"

fun propertyNames :: "json \<Rightarrow> string list" where
  "propertyNames (JObj kvs) = map fst kvs"
| "propertyNames v = []"

text \<open>The shape of the object literal the parsers push: exactly these three properties.\<close>

definition recordShape :: "json \<Rightarrow> bool" where
  "recordShape u = (propertyNames u = [''username'', ''timestamp'', ''href''])"

text \<open>
  The record the parsers make of a username and the entry its metadata come from; an element
  with its \<^verbatim>\<open>string_list_data\<close> replaced by the array of the given entries; and a record
  with a stored \<^verbatim>\<open>normalizedKey\<close> property put in front of its own properties.
\<close>

definition metaRecord :: "json \<Rightarrow> (string \<times> json) list \<Rightarrow> json" where
  "metaRecord name kvs =
     JObj [(''username'', name), (''timestamp'', orNull (map_of kvs ''timestamp'')),
           (''href'', orNull (map_of kvs ''href''))]"

fun withEntries :: "json \<Rightarrow> json list \<Rightarrow> json" where
  "withEntries (JObj ikvs) ds = JObj ((''string_list_data'', JArr ds) # ikvs)"
| "withEntries v ds = v"

fun withKey :: "json \<Rightarrow> json \<Rightarrow> json" where
  "withKey key (JObj kvs) = JObj ((''normalizedKey'', key) # kvs)"
| "withKey key v = v"

text \<open>The keys of the stored snapshots come from the key generator, which only grows.\<close>

definition storeInvariant :: "database \<Rightarrow> bool" where
  "storeInvariant d = (\<forall>s \<in> set (snapshotStore d). snapshotId s < keyGenerator d)"

section \<open>Example exports and stores\<close>

text \<open>
  A followers export in the \<^verbatim>\<open>string_list_data\<close> format and a following export in the
  \<^verbatim>\<open>relationships_following\<close> format with titles, for given usernames; the record the
  parsers make of such a username; a store that is open and empty; and the controller as its
  constructor leaves it, with both files uploaded.
\<close>

definition exportFollowers :: "string list \<Rightarrow> json" where
  "exportFollowers names =
     JArr (map (\<lambda>n. JObj [(''string_list_data'', JArr [JObj [(''value'', JStr n)]])]) names)"

definition exportFollowing :: "string list \<Rightarrow> json" where
  "exportFollowing names =
     JObj [(''relationships_following'', JArr (map (\<lambda>n. JObj [(''title'', JStr n)]) names))]"

definition plainRecord :: "string \<Rightarrow> json" where
  "plainRecord n = JObj [(''username'', JStr n), (''timestamp'', JNull), (''href'', JNull)]"

definition emptyDatabase :: database where
  "emptyDatabase =
     \<lparr>isAvailable = True, snapshotStore = [], keyGenerator = 1, settingsStore = Map.empty\<rparr>"

definition controller :: "database \<Rightarrow> json \<Rightarrow> json \<Rightarrow> ui" where
  "controller d f g =
     \<lparr>db = d, uploadedFollowers = Some f, uploadedFollowing = Some g, currentData = None,
      currentTab = ''unfollowers'', searchQuery = [], whitelist = []\<rparr>"

section \<open>Basic facts\<close>

lemma bindE_simps [simp]: "bindE (Inl e) f = Inl e" "bindE (Inr x) f = f x"
  by (simp_all add: bindE_def)

lemma getProp_field: "v \<noteq> JNull \<Longrightarrow> getProp v k = Inr (field v k)"
  by (cases v) simp_all

lemma lowerName_user: "isUserRecord u \<Longrightarrow> lowerName u = Inr (normalizedKey u)"
  by (cases u)
    (auto simp: isUserRecord_def normalizedKey_def lowerName_def split: option.splits json.splits)

lemma mapE_lowerName:
  "\<forall>u \<in> set xs. isUserRecord u \<Longrightarrow> mapE lowerName xs = Inr (map normalizedKey xs)"
  by (induction xs) (simp_all add: lowerName_user)

lemma filterE_lowerName:
  "\<forall>u \<in> set xs. isUserRecord u \<Longrightarrow>
   filterE (\<lambda>u. bindE (lowerName u) (\<lambda>k. Inr (P k))) xs =
     Inr (filter (\<lambda>u. P (normalizedKey u)) xs)"
  by (induction xs) (simp_all add: lowerName_user)

lemma count_list_filter:
  "count_list (filter P xs) x = (if P x then count_list xs x else 0)"
  by (induction xs) auto

lemma userRecord_field:
  "data \<noteq> JNull \<Longrightarrow>
   userRecord name data =
     Inr (JObj [(''username'', name), (''timestamp'', orNull (field data ''timestamp'')),
                (''href'', orNull (field data ''href''))])"
  by (simp add: userRecord_def getProp_field)

lemma pushEntry_entryRecord:
  "data \<noteq> JNull \<Longrightarrow> pushEntry data users = Inr (users @ entryRecord data)"
  by (simp add: pushEntry_def entryRecord_def getProp_field userRecord_field
      split: option.splits)

lemma forEach_pushEntry:
  "JNull \<notin> set ds \<Longrightarrow> forEach pushEntry ds users = Inr (users @ concat (map entryRecord ds))"
proof (induction ds arbitrary: users)
  case Nil
  show ?case by simp
next
  case (Cons d ds)
  then have "d \<noteq> JNull" and "JNull \<notin> set ds" by auto
  then show ?case by (simp add: pushEntry_entryRecord Cons.IH)
qed

lemma entriesGuarded_entries:
  assumes "item \<noteq> JNull" and "JNull \<notin> set (entriesOf item)"
  shows "entriesGuarded item users = Inr (users @ concat (map entryRecord (entriesOf item)))"
proof (cases "\<exists>ds. field item ''string_list_data'' = Some (JArr ds)")
  case True
  then obtain ds where ds: "field item ''string_list_data'' = Some (JArr ds)" by blast
  with assms(2) have "JNull \<notin> set ds" by (simp add: entriesOf_def)
  with ds assms(1) show ?thesis
    by (simp add: entriesGuarded_def getProp_field entriesOf_def forEach_pushEntry)
next
  case False
  then have "entriesOf item = []"
    by (auto simp: entriesOf_def split: option.splits json.splits)
  moreover from False assms(1) have "entriesGuarded item users = Inr users"
    by (auto simp: entriesGuarded_def getProp_field split: option.splits json.splits)
  ultimately show ?thesis by simp
qed

lemma forEach_entriesGuarded:
  "\<forall>item \<in> set items. item \<noteq> JNull \<and> JNull \<notin> set (entriesOf item) \<Longrightarrow>
   forEach entriesGuarded items users =
     Inr (users @ concat (map (\<lambda>item. concat (map entryRecord (entriesOf item))) items))"
proof (induction items arbitrary: users)
  case Nil
  show ?case by simp
next
  case (Cons i items)
  then show ?case by (simp add: entriesGuarded_entries)
qed

section \<open>The differential engine\<close>

text \<open>
  C1. For sequences \<open>a\<close> and \<open>b\<close> of user records (objects whose username is a string),
  \<open>findUnfollowers a b\<close>, \<open>findNewFollowers b a\<close> and \<open>findNotFollowingBack b a\<close> all
  return the elements of \<open>a\<close> whose lower-cased username is the lower-cased username of no
  element of \<open>b\<close>, in the order of \<open>a\<close>. The result is a filter of \<open>a\<close>: an element that
  passes is kept as often as it occurs, so two records with the same lower-cased username
  both stay. The functions are values of their arguments: \<^verbatim>\<open>map\<close> and \<^verbatim>\<open>filter\<close> build new
  arrays and nothing is written to \<open>a\<close> or \<open>b\<close>.
\<close>

theorem differenceByKey:
  assumes "\<forall>u \<in> set a \<union> set b. isUserRecord u"
  shows "findUnfollowers a b = Inr (filter (\<lambda>u. normalizedKey u \<notin> normalizedKey ` set b) a)
       \<and> findNewFollowers b a = Inr (filter (\<lambda>u. normalizedKey u \<notin> normalizedKey ` set b) a)
       \<and> findNotFollowingBack b a =
           Inr (filter (\<lambda>u. normalizedKey u \<notin> normalizedKey ` set b) a)
       \<and> (\<forall>u. normalizedKey u \<notin> normalizedKey ` set b \<longrightarrow>
             count_list (filter (\<lambda>u. normalizedKey u \<notin> normalizedKey ` set b) a) u
               = count_list a u)"
proof -
  from assms have a: "\<forall>u \<in> set a. isUserRecord u" and b: "\<forall>u \<in> set b. isUserRecord u"
    by auto
  show ?thesis
    by (simp add: findUnfollowers_def findNewFollowers_def findNotFollowingBack_def
        mapE_lowerName [OF b] filterE_lowerName [OF a] count_list_filter)
qed

theorem differenceByKey_witness:
  "findUnfollowers
     [JObj [(''username'', JStr ''Alice'')], JObj [(''username'', JStr ''alice'')],
      JObj [(''username'', JStr ''Bob'')]]
     [JObj [(''username'', JStr ''BOB'')]]
   = Inr [JObj [(''username'', JStr ''Alice'')], JObj [(''username'', JStr ''alice'')]]
   \<and> findNewFollowers
     [JObj [(''username'', JStr ''BOB'')]]
     [JObj [(''username'', JStr ''Alice'')], JObj [(''username'', JStr ''alice'')],
      JObj [(''username'', JStr ''Bob'')]]
   = Inr [JObj [(''username'', JStr ''Alice'')], JObj [(''username'', JStr ''alice'')]]
   \<and> findNotFollowingBack
     [JObj [(''username'', JStr ''BOB'')]]
     [JObj [(''username'', JStr ''Alice'')], JObj [(''username'', JStr ''alice'')],
      JObj [(''username'', JStr ''Bob'')]]
   = Inr [JObj [(''username'', JStr ''Alice'')], JObj [(''username'', JStr ''alice'')]]"
  using differenceByKey
    [of "[JObj [(''username'', JStr ''Alice'')], JObj [(''username'', JStr ''alice'')],
          JObj [(''username'', JStr ''Bob'')]]"
        "[JObj [(''username'', JStr ''BOB'')]]"]
  by (simp add: isUserRecord_def normalizedKey_def toLowerCase_def toLowerChar_def)

section \<open>The followers normalizer\<close>

text \<open>
  C2 (as amended). On an input none of whose elements and entries is \<^verbatim>\<open>null\<close>,
  \<open>parseFollowers\<close> fails with a format error exactly when the input is falsy (absent),
  or is not an array, or its first element holds neither \<^verbatim>\<open>string_list_data\<close> nor
  \<^verbatim>\<open>value\<close> (a field being held when its value is truthy); otherwise it returns one
  record for each entry that holds a value, in order, and none for the other entries; the
  empty array gives the empty result.
\<close>

theorem parseFollowers_outcome:
  assumes "noNullEntries j"
  shows "parseFollowers j =
     (if \<not> truthy j then Inl (Error msgEmpty)
      else if \<not> isArray j then Inl (Error msgFollowersNotArray)
      else if firstLacksBoth j then Inl (Error msgFollowersUnrecognized)
      else Inr (followerRecords j))"
proof (cases j)
  case (JArr items)
  show ?thesis
  proof (cases items)
    case Nil
    with JArr show ?thesis by (simp add: parseFollowers_def)
  next
    case (Cons firstItem rest)
    with JArr assms
    have nn: "\<forall>item \<in> set items. item \<noteq> JNull \<and> JNull \<notin> set (entriesOf item)"
      by simp
    with Cons have "firstItem \<noteq> JNull" by simp
    with JArr Cons forEach_entriesGuarded [OF nn, of "[]"] show ?thesis
      by (simp add: parseFollowers_def getProp_field)
  qed
qed (simp_all add: parseFollowers_def)

theorem parseFollowers_outcome_witness:
  "noNullEntries
     (JArr [JObj [(''string_list_data'',
        JArr [JObj [(''value'', JStr ''alice''), (''timestamp'', JNum 1690000000)],
              JObj [(''timestamp'', JNum 5)]])]])
   \<and> parseFollowers
     (JArr [JObj [(''string_list_data'',
        JArr [JObj [(''value'', JStr ''alice''), (''timestamp'', JNum 1690000000)],
              JObj [(''timestamp'', JNum 5)]])]])
   = Inr [JObj [(''username'', JStr ''alice''), (''timestamp'', JNum 1690000000),
                (''href'', JNull)]]
   \<and> parseFollowers (JObj [(''foo'', JStr ''bar'')]) = Inl (Error msgFollowersNotArray)
   \<and> parseFollowers (JArr []) = Inr []"
  using parseFollowers_outcome
    [of "JArr [JObj [(''string_list_data'',
        JArr [JObj [(''value'', JStr ''alice''), (''timestamp'', JNum 1690000000)],
              JObj [(''timestamp'', JNum 5)]])]]"]
    parseFollowers_outcome [of "JObj [(''foo'', JStr ''bar'')]"]
    parseFollowers_outcome [of "JArr []"]
  by (simp add: entriesOf_def entryRecord_def)

text \<open>
  The claim as stated fails on a \<^verbatim>\<open>null\<close> entry: the first element holds
  \<^verbatim>\<open>string_list_data\<close>, and reading \<^verbatim>\<open>data.value\<close> of the entry throws a TypeError.
\<close>

theorem parseFollowers_null_entry:
  "truthyOpt (field (JObj [(''string_list_data'', JArr [JNull])]) ''string_list_data'')
   \<and> parseFollowers (JArr [JObj [(''string_list_data'', JArr [JNull])]]) = Inl TypeError"
  by (simp add: parseFollowers_def entriesGuarded_def pushEntry_def)

section \<open>The following normalizer\<close>





lemma followingItem_untitled:
  "item \<noteq> JNull \<Longrightarrow> \<not> truthyOpt (field item ''title'') \<Longrightarrow>
   followingItem fallback item users = fallback item users"
  by (cases "field item ''title''") (simp_all add: followingItem_def getProp_field)




text \<open>
  C4. The claim is that a normalizer either returns the records or fails with a format
  error that carries a reason. The code does not: under \<^verbatim>\<open>relationships_following\<close> an
  element whose \<^verbatim>\<open>string_list_data\<close> is truthy and not an array makes \<^verbatim>\<open>forEach\<close> throw a
  TypeError, where the bare-array branch, which tests \<^verbatim>\<open>Array.isArray\<close>, skips the same
  element and succeeds. A \<^verbatim>\<open>null\<close> element throws a TypeError in either parser.
\<close>

theorem parseFollowing_unguarded_forEach:
  "parseFollowing (JObj [(''relationships_following'',
       JArr [JObj [(''string_list_data'', JNum 5)]])]) = Inl TypeError
   \<and> parseFollowing (JArr [JObj [(''string_list_data'', JNum 5)]]) = Inr []
   \<and> parseFollowing (JObj [(''relationships_following'', JArr [JNull])]) = Inl TypeError
   \<and> parseFollowers (JArr [JNull]) = Inl TypeError"
  by (simp add: parseFollowing_def parseFollowers_def followingItem_def entriesUnguarded_def
      entriesGuarded_def)

section \<open>Falsy metadata\<close>

lemma map_of_delProp: "map_of (delProp k kvs) k' = (if k' = k then None else map_of kvs k')"
  by (induction kvs) (auto simp: delProp_def)

lemma userRecord_falsy_field:
  assumes "map_of kvs k = Some v" and "\<not> truthy v" and "k = ''timestamp'' \<or> k = ''href''"
  shows "userRecord name (JObj kvs) = userRecord name (JObj (delProp k kvs))"
  using assms by (auto simp: userRecord_def map_of_delProp)

lemma pushEntry_falsy_field:
  assumes "map_of kvs k = Some v" and "\<not> truthy v" and "k = ''timestamp'' \<or> k = ''href''"
  shows "pushEntry (JObj kvs) users = pushEntry (JObj (delProp k kvs)) users"
  using assms userRecord_falsy_field [OF assms]
  by (auto simp: pushEntry_def map_of_delProp split: option.splits)

section \<open>The shape of the records\<close>

lemma forEach_invariant:
  assumes "forEach f xs users = Inr us"
    and "\<And>x users us. f x users = Inr us \<Longrightarrow> P users \<Longrightarrow> P us"
    and "P users"
  shows "P us"
  using assms(1,3)
proof (induction xs arbitrary: users)
  case Nil
  then show ?case by simp
next
  case (Cons x xs)
  then show ?case
    by (cases "f x users") (auto dest: assms(2))
qed

lemma userRecord_names:
  "userRecord name data = Inr u \<Longrightarrow> propertyNames u = [''username'', ''timestamp'', ''href'']"
  by (auto simp: userRecord_def bindE_def split: sum.splits)

lemma pushEntry_names:
  assumes "pushEntry data users = Inr us" and "\<forall>u \<in> set users. recordShape u"
  shows "\<forall>u \<in> set us. recordShape u"
  using assms
  by (auto simp: pushEntry_def bindE_def recordShape_def split: sum.splits option.splits if_splits
      dest: userRecord_names)

lemma entries_names:
  assumes "forEach pushEntry ds users = Inr us" and "\<forall>u \<in> set users. recordShape u"
  shows "\<forall>u \<in> set us. recordShape u"
  using assms(1) pushEntry_names assms(2)
  by (rule forEach_invariant [where P = "\<lambda>us. \<forall>u \<in> set us. recordShape u"])

lemma entriesGuarded_names:
  assumes "entriesGuarded item users = Inr us" and "\<forall>u \<in> set users. recordShape u"
  shows "\<forall>u \<in> set us. recordShape u"
  using assms
  by (auto simp: entriesGuarded_def bindE_def split: sum.splits option.splits json.splits
      dest: entries_names)

lemma entriesUnguarded_names:
  assumes "entriesUnguarded item users = Inr us" and "\<forall>u \<in> set users. recordShape u"
  shows "\<forall>u \<in> set us. recordShape u"
  using assms
  by (auto simp: entriesUnguarded_def bindE_def split: sum.splits option.splits json.splits if_splits
      dest: entries_names)

lemma pushTitle_names:
  assumes "pushTitle item t users = Inr us" and "\<forall>u \<in> set users. recordShape u"
  shows "\<forall>u \<in> set us. recordShape u"
  using assms
  by (auto simp: pushTitle_def bindE_def recordShape_def split: sum.splits dest: userRecord_names)

lemma followingItem_names:
  assumes "followingItem fallback item users = Inr us" and "\<forall>u \<in> set users. recordShape u"
    and "\<And>item users us. fallback item users = Inr us \<Longrightarrow> \<forall>u \<in> set users. recordShape u
          \<Longrightarrow> \<forall>u \<in> set us. recordShape u"
  shows "\<forall>u \<in> set us. recordShape u"
proof (cases "truthyOpt (field item ''title'')")
  case True
  then have "item \<noteq> JNull" by auto
  with True assms(1) have "pushTitle item (titleOf item) users = Inr us"
    by (cases "field item ''title''") (auto simp: followingItem_def getProp_field titleOf_def)
  with assms(2) show ?thesis by (rule pushTitle_names [rotated])
next
  case False
  with assms(1) have "fallback item users = Inr us"
    by (cases item; cases "field item ''title''") (auto simp: followingItem_def split: if_splits)
  with assms(2) show ?thesis by (rule assms(3) [rotated])
qed


lemma parseFollowers_names:
  assumes "parseFollowers j = Inr us"
  shows "\<forall>u \<in> set us. recordShape u"
proof (cases "isArray j")
  case True
  then obtain items where j: "j = JArr items" by (cases j) auto
  show ?thesis
  proof (cases items)
    case Nil
    with j assms show ?thesis by (simp add: parseFollowers_def)
  next
    case (Cons firstItem rest)
    with j assms have "forEach entriesGuarded items [] = Inr us"
      by (auto simp: parseFollowers_def bindE_def split: sum.splits if_splits)
    then show ?thesis
      by (rule forEach_invariant [where P = "\<lambda>us. \<forall>u \<in> set us. recordShape u"])
        (auto dest: entriesGuarded_names)
  qed
next
  case False
  with assms show ?thesis
    by (cases j) (auto simp: parseFollowers_def split: if_splits)
qed

lemma forEach_followingItem_names:
  assumes "forEach (followingItem fallback) items [] = Inr us"
    and "\<And>item users us. fallback item users = Inr us \<Longrightarrow> \<forall>u \<in> set users. recordShape u
          \<Longrightarrow> \<forall>u \<in> set us. recordShape u"
  shows "\<forall>u \<in> set us. recordShape u"
  using assms(1)
proof (rule forEach_invariant [where P = "\<lambda>us. \<forall>u \<in> set us. recordShape u"])
  fix x users us'
  assume "followingItem fallback x users = Inr us'" and "\<forall>u \<in> set users. recordShape u"
  then show "\<forall>u \<in> set us'. recordShape u"
    by (rule followingItem_names) (rule assms(2))
qed simp

lemma parseFollowing_names:
  assumes "parseFollowing j = Inr us"
  shows "\<forall>u \<in> set us. recordShape u"
proof (cases "isArray j")
  case True
  then obtain items where j: "j = JArr items" by (cases j) auto
  show ?thesis
  proof (cases items)
    case Nil
    with j assms show ?thesis by (simp add: parseFollowing_def)
  next
    case (Cons firstItem rest)
    with j assms have "forEach (followingItem entriesGuarded) items [] = Inr us"
      by (auto simp: parseFollowing_def bindE_def split: sum.splits if_splits)
    then show ?thesis
      by (rule forEach_followingItem_names) (rule entriesGuarded_names)
  qed
next
  case False
  with assms obtain items where "forEach (followingItem entriesUnguarded) items [] = Inr us"
    by (cases j)
      (auto simp: parseFollowing_def bindE_def split: sum.splits if_splits option.splits json.splits)
  then show ?thesis
    by (rule forEach_followingItem_names) (rule entriesUnguarded_names)
qed

lemma recordShape_no_key:
  assumes "recordShape u"
  shows "getProp u ''normalizedKey'' = Inr None"
proof -
  from assms obtain kvs where u: "u = JObj kvs"
    and m: "map fst kvs = [''username'', ''timestamp'', ''href'']"
    by (cases u) (auto simp: recordShape_def)
  have "set (map fst kvs) = {''username'', ''timestamp'', ''href''}"
    unfolding m by simp
  then have "''normalizedKey'' \<notin> fst ` set kvs"
    by simp
  with u show ?thesis by (simp add: map_of_eq_None_iff)
qed

section \<open>The whitelist\<close>

lemma getWhitelist_saveSetting:
  "getWhitelist (saveSetting d ''whitelist'' w) = (if isAvailable d then w else getWhitelist d)"
  by (simp add: getWhitelist_def getSetting_def saveSetting_def)

lemma getWhitelist_unavailable: "\<not> isAvailable d \<Longrightarrow> getWhitelist d = []"
  by (simp add: getWhitelist_def getSetting_def)

lemma getWhitelist_removeFromWhitelist:
  "getWhitelist (removeFromWhitelist d u) = filter (\<lambda>k. k \<noteq> toLowerCase u) (getWhitelist d)"
  by (cases "isAvailable d")
    (simp_all add: removeFromWhitelist_def getWhitelist_saveSetting getWhitelist_unavailable)

lemma saveSetting_twice:
  "saveSetting (saveSetting d k v) k w = saveSetting d k w"
  by (simp add: saveSetting_def)

text \<open>
  C7. Both whitelist operations lower-case the username first: on an available store, adding
  a name whose lower-cased form is new appends that form, and removing filters that form
  out. Adding a name whose lower-cased form is already in the whitelist leaves the whole
  store as it is (nothing is written), and removing one that is absent writes back the
  same list, so the whitelist read afterwards is unchanged. Each operation done twice is
  the operation done once. Both are total: they complete in every state of the store.
\<close>

theorem whitelist_add_remove:
  "(toLowerCase u \<in> set (getWhitelist d) \<longrightarrow> addToWhitelist d u = d)
   \<and> (toLowerCase u \<notin> set (getWhitelist d) \<longrightarrow>
        getWhitelist (removeFromWhitelist d u) = getWhitelist d)
   \<and> (isAvailable d \<longrightarrow> toLowerCase u \<notin> set (getWhitelist d) \<longrightarrow>
        getWhitelist (addToWhitelist d u) = getWhitelist d @ [toLowerCase u])
   \<and> getWhitelist (removeFromWhitelist d u) =
        filter (\<lambda>k. k \<noteq> toLowerCase u) (getWhitelist d)
   \<and> addToWhitelist (addToWhitelist d u) u = addToWhitelist d u
   \<and> removeFromWhitelist (removeFromWhitelist d u) u = removeFromWhitelist d u"
proof (intro conjI impI)
  show "addToWhitelist d u = d" if "toLowerCase u \<in> set (getWhitelist d)"
    using that by (simp add: addToWhitelist_def)
  show r: "getWhitelist (removeFromWhitelist d u) =
        filter (\<lambda>k. k \<noteq> toLowerCase u) (getWhitelist d)"
    by (rule getWhitelist_removeFromWhitelist)
  show "getWhitelist (removeFromWhitelist d u) = getWhitelist d"
    if "toLowerCase u \<notin> set (getWhitelist d)"
  proof -
    from that have "filter (\<lambda>k. k \<noteq> toLowerCase u) (getWhitelist d) = getWhitelist d"
      by (intro filter_True) auto
    with r show ?thesis by simp
  qed
  show "getWhitelist (addToWhitelist d u) = getWhitelist d @ [toLowerCase u]"
    if "isAvailable d" and "toLowerCase u \<notin> set (getWhitelist d)"
    using that by (simp add: addToWhitelist_def getWhitelist_saveSetting)
  show "addToWhitelist (addToWhitelist d u) u = addToWhitelist d u"
  proof (cases "isAvailable d")
    case True
    then show ?thesis
      by (simp add: addToWhitelist_def Let_def getWhitelist_saveSetting)
  next
    case False
    then show ?thesis
      by (simp add: addToWhitelist_def Let_def saveSetting_def)
  qed
  show "removeFromWhitelist (removeFromWhitelist d u) u = removeFromWhitelist d u"
    by (simp add: removeFromWhitelist_def [of "removeFromWhitelist d u"]
        getWhitelist_removeFromWhitelist)
      (simp add: removeFromWhitelist_def saveSetting_twice)
qed

theorem whitelist_add_remove_witness:
  "addToWhitelist
     \<lparr>isAvailable = True, snapshotStore = [], keyGenerator = 1,
      settingsStore = [''whitelist'' \<mapsto> [''alice'']]\<rparr> ''Alice''
   = \<lparr>isAvailable = True, snapshotStore = [], keyGenerator = 1,
      settingsStore = [''whitelist'' \<mapsto> [''alice'']]\<rparr>
   \<and> getWhitelist (removeFromWhitelist
     \<lparr>isAvailable = True, snapshotStore = [], keyGenerator = 1,
      settingsStore = [''whitelist'' \<mapsto> [''alice'']]\<rparr> ''Bob'') = [''alice'']
   \<and> getWhitelist (addToWhitelist
     \<lparr>isAvailable = True, snapshotStore = [], keyGenerator = 1,
      settingsStore = [''whitelist'' \<mapsto> [''alice'']]\<rparr> ''Bob'') = [''alice'', ''bob'']"
  using whitelist_add_remove
    [of "''Alice''" "\<lparr>isAvailable = True, snapshotStore = [], keyGenerator = 1,
      settingsStore = [''whitelist'' \<mapsto> [''alice'']]\<rparr>"]
    whitelist_add_remove
    [of "''Bob''" "\<lparr>isAvailable = True, snapshotStore = [], keyGenerator = 1,
      settingsStore = [''whitelist'' \<mapsto> [''alice'']]\<rparr>"]
  by (simp add: getWhitelist_def getSetting_def toLowerCase_def toLowerChar_def)


section \<open>The list views\<close>

lemma includesStr_empty: "includesStr s []"
  by (cases s) simp_all

lemma tabUsers_notFollowingBack:
  assumes "\<forall>x \<in> set (notFollowingBack r). isUserRecord x"
    and "currentTab u = ''notFollowingBack''"
  shows "tabUsers u r =
    Inr (filter (\<lambda>x. normalizedKey x \<notin> set (whitelist u)) (notFollowingBack r))"
  using assms(2) filterE_lowerName [OF assms(1), of "\<lambda>k. k \<notin> set (whitelist u)"]
  by (simp add: tabUsers_def)

lemma tabUsers_whitelist:
  assumes "\<forall>x \<in> set (notFollowingBack r). isUserRecord x"
    and "currentTab u = ''whitelist''"
  shows "tabUsers u r =
    Inr (filter (\<lambda>x. normalizedKey x \<in> set (whitelist u)) (notFollowingBack r))"
  using assms(2) filterE_lowerName [OF assms(1), of "\<lambda>k. k \<in> set (whitelist u)"]
  by (simp add: tabUsers_def)

lemma search_filter:
  assumes "\<forall>x \<in> set xs. isUserRecord x"
  shows "(if q \<noteq> [] then filterE (\<lambda>x. bindE (lowerName x) (\<lambda>k. Inr (includesStr k q))) xs
          else Inr xs) = Inr (filter (\<lambda>x. includesStr (normalizedKey x) q) xs)"
  using filterE_lowerName [OF assms, of "\<lambda>k. includesStr k q"]
  by (simp add: includesStr_empty)

lemma renderUserList_notFollowingBack:
  assumes "currentData u = Some r" and "\<forall>x \<in> set (notFollowingBack r). isUserRecord x"
    and "currentTab u = ''notFollowingBack''"
  shows "renderUserList u =
    Some (Inr (filter (\<lambda>x. includesStr (normalizedKey x) (searchQuery u))
      (filter (\<lambda>x. normalizedKey x \<notin> set (whitelist u)) (notFollowingBack r))))"
proof -
  have "\<forall>x \<in> set (filter (\<lambda>x. normalizedKey x \<notin> set (whitelist u)) (notFollowingBack r)).
          isUserRecord x"
    using assms(2) by simp
  from search_filter [OF this, of "searchQuery u"] assms(1)
    tabUsers_notFollowingBack [OF assms(2,3)]
  show ?thesis by (simp add: renderUserList_def)
qed

lemma renderUserList_whitelist:
  assumes "currentData u = Some r" and "\<forall>x \<in> set (notFollowingBack r). isUserRecord x"
    and "currentTab u = ''whitelist''"
  shows "renderUserList u =
    Some (Inr (filter (\<lambda>x. includesStr (normalizedKey x) (searchQuery u))
      (filter (\<lambda>x. normalizedKey x \<in> set (whitelist u)) (notFollowingBack r))))"
proof -
  have "\<forall>x \<in> set (filter (\<lambda>x. normalizedKey x \<in> set (whitelist u)) (notFollowingBack r)).
          isUserRecord x"
    using assms(2) by simp
  from search_filter [OF this, of "searchQuery u"] assms(1)
    tabUsers_whitelist [OF assms(2,3)]
  show ?thesis by (simp add: renderUserList_def)
qed

text \<open>
  C8. For a result \<open>N\<close> of user records and a whitelist \<open>W\<close>, the view of the
  \<^verbatim>\<open>notFollowingBack\<close> tab (the users its case of the \<^verbatim>\<open>switch\<close> selects) is the elements
  of \<open>N\<close> whose lower-cased username is not in \<open>W\<close>, and the view of the \<^verbatim>\<open>whitelist\<close> tab
  is those whose lower-cased username is in \<open>W\<close>; the two views are disjoint and together
  are \<open>N\<close>, element for element. The list on the screen is the view, which a search query
  typed into the search box narrows, as on every tab, to the usernames that contain it;
  with the search box empty the list on the screen is the view itself.
\<close>

theorem whitelist_views_partition:
  assumes "currentData u = Some r" and "\<forall>x \<in> set (notFollowingBack r). isUserRecord x"
  shows "tabUsers (u\<lparr>currentTab := ''notFollowingBack''\<rparr>) r =
           Inr (filter (\<lambda>x. normalizedKey x \<notin> set (whitelist u)) (notFollowingBack r))
       \<and> tabUsers (u\<lparr>currentTab := ''whitelist''\<rparr>) r =
           Inr (filter (\<lambda>x. normalizedKey x \<in> set (whitelist u)) (notFollowingBack r))
       \<and> (searchQuery u = [] \<longrightarrow>
            renderUserList (u\<lparr>currentTab := ''notFollowingBack''\<rparr>) =
              Some (Inr (filter (\<lambda>x. normalizedKey x \<notin> set (whitelist u)) (notFollowingBack r)))
          \<and> renderUserList (u\<lparr>currentTab := ''whitelist''\<rparr>) =
              Some (Inr (filter (\<lambda>x. normalizedKey x \<in> set (whitelist u)) (notFollowingBack r))))
       \<and> renderUserList (u\<lparr>currentTab := ''notFollowingBack''\<rparr>) =
            Some (Inr (filter (\<lambda>x. includesStr (normalizedKey x) (searchQuery u))
              (filter (\<lambda>x. normalizedKey x \<notin> set (whitelist u)) (notFollowingBack r))))
       \<and> renderUserList (u\<lparr>currentTab := ''whitelist''\<rparr>) =
            Some (Inr (filter (\<lambda>x. includesStr (normalizedKey x) (searchQuery u))
              (filter (\<lambda>x. normalizedKey x \<in> set (whitelist u)) (notFollowingBack r))))
       \<and> set (filter (\<lambda>x. normalizedKey x \<notin> set (whitelist u)) (notFollowingBack r))
          \<inter> set (filter (\<lambda>x. normalizedKey x \<in> set (whitelist u)) (notFollowingBack r)) = {}
       \<and> mset (filter (\<lambda>x. normalizedKey x \<notin> set (whitelist u)) (notFollowingBack r))
          + mset (filter (\<lambda>x. normalizedKey x \<in> set (whitelist u)) (notFollowingBack r))
          = mset (notFollowingBack r)"
proof -
  let ?n = "u\<lparr>currentTab := ''notFollowingBack''\<rparr>" and ?w = "u\<lparr>currentTab := ''whitelist''\<rparr>"
  have n: "currentData ?n = Some r" "currentTab ?n = ''notFollowingBack''"
    and w: "currentData ?w = Some r" "currentTab ?w = ''whitelist''"
    using assms(1) by simp_all
  note tn = tabUsers_notFollowingBack [OF assms(2) n(2)]
    and tw = tabUsers_whitelist [OF assms(2) w(2)]
    and rn = renderUserList_notFollowingBack [OF n(1) assms(2) n(2)]
    and rw = renderUserList_whitelist [OF w(1) assms(2) w(2)]
  have d: "set (filter (\<lambda>x. normalizedKey x \<notin> set (whitelist u)) (notFollowingBack r))
          \<inter> set (filter (\<lambda>x. normalizedKey x \<in> set (whitelist u)) (notFollowingBack r)) = {}"
    by auto
  have m: "mset (filter (\<lambda>x. normalizedKey x \<notin> set (whitelist u)) (notFollowingBack r))
          + mset (filter (\<lambda>x. normalizedKey x \<in> set (whitelist u)) (notFollowingBack r))
          = mset (notFollowingBack r)"
    by (induction "notFollowingBack r") auto
  from tn tw rn rw d m show ?thesis
    by (simp add: includesStr_empty)
qed


theorem whitelist_views_partition_witness:
  "renderUserList
     \<lparr>db = \<lparr>isAvailable = False, snapshotStore = [], keyGenerator = 1, settingsStore = Map.empty\<rparr>,
      uploadedFollowers = None, uploadedFollowing = None,
      currentData = Some \<lparr>followers = [],
        following = [JObj [(''username'', JStr ''Alice'')], JObj [(''username'', JStr ''bob'')]],
        unfollowers = [], newFollowers = [],
        notFollowingBack = [JObj [(''username'', JStr ''Alice'')], JObj [(''username'', JStr ''bob'')]]\<rparr>,
      currentTab = ''notFollowingBack'', searchQuery = [], whitelist = [''alice'']\<rparr>
   = Some (Inr [JObj [(''username'', JStr ''bob'')]])
   \<and> renderUserList
     \<lparr>db = \<lparr>isAvailable = False, snapshotStore = [], keyGenerator = 1, settingsStore = Map.empty\<rparr>,
      uploadedFollowers = None, uploadedFollowing = None,
      currentData = Some \<lparr>followers = [],
        following = [JObj [(''username'', JStr ''Alice'')], JObj [(''username'', JStr ''bob'')]],
        unfollowers = [], newFollowers = [],
        notFollowingBack = [JObj [(''username'', JStr ''Alice'')], JObj [(''username'', JStr ''bob'')]]\<rparr>,
      currentTab = ''whitelist'', searchQuery = [], whitelist = [''alice'']\<rparr>
   = Some (Inr [JObj [(''username'', JStr ''Alice'')]])
   \<and> renderUserList
     \<lparr>db = \<lparr>isAvailable = False, snapshotStore = [], keyGenerator = 1, settingsStore = Map.empty\<rparr>,
      uploadedFollowers = None, uploadedFollowing = None,
      currentData = Some \<lparr>followers = [],
        following = [JObj [(''username'', JStr ''Alice'')], JObj [(''username'', JStr ''bob'')]],
        unfollowers = [], newFollowers = [],
        notFollowingBack = [JObj [(''username'', JStr ''Alice'')], JObj [(''username'', JStr ''bob'')]]\<rparr>,
      currentTab = ''notFollowingBack'', searchQuery = ''ali'', whitelist = []\<rparr>
   = Some (Inr [JObj [(''username'', JStr ''Alice'')]])"
  using whitelist_views_partition
    [of "\<lparr>db = \<lparr>isAvailable = False, snapshotStore = [], keyGenerator = 1, settingsStore = Map.empty\<rparr>,
      uploadedFollowers = None, uploadedFollowing = None,
      currentData = Some \<lparr>followers = [],
        following = [JObj [(''username'', JStr ''Alice'')], JObj [(''username'', JStr ''bob'')]],
        unfollowers = [], newFollowers = [],
        notFollowingBack = [JObj [(''username'', JStr ''Alice'')], JObj [(''username'', JStr ''bob'')]]\<rparr>,
      currentTab = ''notFollowingBack'', searchQuery = ''ali'', whitelist = []\<rparr>"
      "\<lparr>followers = [],
        following = [JObj [(''username'', JStr ''Alice'')], JObj [(''username'', JStr ''bob'')]],
        unfollowers = [], newFollowers = [],
        notFollowingBack = [JObj [(''username'', JStr ''Alice'')], JObj [(''username'', JStr ''bob'')]]\<rparr>"]
  whitelist_views_partition
    [of "\<lparr>db = \<lparr>isAvailable = False, snapshotStore = [], keyGenerator = 1, settingsStore = Map.empty\<rparr>,
      uploadedFollowers = None, uploadedFollowing = None,
      currentData = Some \<lparr>followers = [],
        following = [JObj [(''username'', JStr ''Alice'')], JObj [(''username'', JStr ''bob'')]],
        unfollowers = [], newFollowers = [],
        notFollowingBack = [JObj [(''username'', JStr ''Alice'')], JObj [(''username'', JStr ''bob'')]]\<rparr>,
      currentTab = ''notFollowingBack'', searchQuery = [], whitelist = [''alice'']\<rparr>"
      "\<lparr>followers = [],
        following = [JObj [(''username'', JStr ''Alice'')], JObj [(''username'', JStr ''bob'')]],
        unfollowers = [], newFollowers = [],
        notFollowingBack = [JObj [(''username'', JStr ''Alice'')], JObj [(''username'', JStr ''bob'')]]\<rparr>"]
  by (simp add: isUserRecord_def normalizedKey_def toLowerCase_def toLowerChar_def)

section \<open>The analysis run\<close>

lemma engine_on_user_records:
  assumes "\<forall>u \<in> set a \<union> set b. isUserRecord u"
  shows "findNotFollowingBack b a =
           Inr (filter (\<lambda>u. normalizedKey u \<notin> normalizedKey ` set b) a)"
    and "findUnfollowers a b =
           Inr (filter (\<lambda>u. normalizedKey u \<notin> normalizedKey ` set b) a)"
    and "findNewFollowers b a =
           Inr (filter (\<lambda>u. normalizedKey u \<notin> normalizedKey ` set b) a)"
proof -
  from assms have a: "\<forall>u \<in> set a. isUserRecord u" and b: "\<forall>u \<in> set b. isUserRecord u"
    by auto
  show "findNotFollowingBack b a =
           Inr (filter (\<lambda>u. normalizedKey u \<notin> normalizedKey ` set b) a)"
    and "findUnfollowers a b =
           Inr (filter (\<lambda>u. normalizedKey u \<notin> normalizedKey ` set b) a)"
    and "findNewFollowers b a =
           Inr (filter (\<lambda>u. normalizedKey u \<notin> normalizedKey ` set b) a)"
    by (simp_all add: findUnfollowers_def findNewFollowers_def findNotFollowingBack_def
        mapE_lowerName [OF b] filterE_lowerName [OF a])
qed

lemma getLatestSnapshot_empty: "getSnapshots d = [] \<Longrightarrow> getLatestSnapshot d = None"
  by (simp add: getLatestSnapshot_def)

lemma getLatestSnapshot_member:
  assumes "getLatestSnapshot d = Some s"
  shows "s \<in> set (snapshotStore d) \<and> isAvailable d"
proof -
  from assms have ne: "getSnapshots d \<noteq> []"
    by (auto simp: getLatestSnapshot_def)
  then have av: "isAvailable d" and st: "getSnapshots d = snapshotStore d"
    by (auto simp: getSnapshots_def split: if_splits)
  from assms ne obtain rest where "sortNewestFirst (getSnapshots d) = s # rest"
    by (auto simp: getLatestSnapshot_def Let_def split: list.splits)
  then have "s \<in> set (sortNewestFirst (getSnapshots d))" by simp
  then have "s \<in> set (getSnapshots d)" by (simp add: sortNewestFirst_def)
  with av st show ?thesis by simp
qed

lemma saveSnapshot_storeInvariant:
  "storeInvariant d \<Longrightarrow> storeInvariant (fst (saveSnapshot d now fs fg))"
  by (auto simp: storeInvariant_def saveSnapshot_def less_Suc_eq)

lemma calculateComparisons_calls:
  "fst (calculateComparisons prev fs fg) =
     (case prev of
        None \<Rightarrow> [FindNotFollowingBack fs fg]
      | Some p \<Rightarrow>
          (case findUnfollowers (snapshot.followers p) fs of
             Inl e \<Rightarrow> [FindUnfollowers (snapshot.followers p) fs]
           | Inr un \<Rightarrow>
               (case findNewFollowers (snapshot.followers p) fs of
                  Inl e \<Rightarrow> [FindUnfollowers (snapshot.followers p) fs,
                            FindNewFollowers (snapshot.followers p) fs]
                | Inr nw \<Rightarrow> [FindUnfollowers (snapshot.followers p) fs,
                             FindNewFollowers (snapshot.followers p) fs,
                             FindNotFollowingBack fs fg])))"
  by (simp add: calculateComparisons_def split: option.splits sum.splits)

lemma calculateComparisons_engine_args:
  assumes "FindUnfollowers p c \<in> set (fst (calculateComparisons prev fs fg))
         \<or> FindNewFollowers p c \<in> set (fst (calculateComparisons prev fs fg))"
  shows "\<exists>s. prev = Some s \<and> p = snapshot.followers s \<and> c = fs"
  using assms
  by (auto simp: calculateComparisons_calls split: option.splits sum.splits)

text \<open>The four outcomes of a run.\<close>

lemma analyzeData_cases:
  obtains
    (missing) "uploadedFollowers u = None \<or> uploadedFollowing u = None"
      "analyzeData now u = (u, [], ToastUploadBoth)"
  | (followers_fail) fj gj e where "uploadedFollowers u = Some fj" "uploadedFollowing u = Some gj"
      "parseFollowers fj = Inl e" "analyzeData now u = (u, [NormalizeFollowers], ToastError e)"
  | (following_fail) fj gj fs e where "uploadedFollowers u = Some fj" "uploadedFollowing u = Some gj"
      "parseFollowers fj = Inr fs" "parseFollowing gj = Inl e"
      "analyzeData now u = (u, [NormalizeFollowers, NormalizeFollowing], ToastError e)"
  | (parsed) fj gj fs fg where "uploadedFollowers u = Some fj" "uploadedFollowing u = Some gj"
      "parseFollowers fj = Inr fs" "parseFollowing gj = Inr fg"
      "analyzeData now u =
        (case snd (calculateComparisons (getLatestSnapshot (db u)) fs fg) of
           Inl e \<Rightarrow> (u\<lparr>db := fst (saveSnapshot (db u) now fs fg)\<rparr>,
                     [NormalizeFollowers, NormalizeFollowing, GetLatestSnapshot, SaveSnapshot]
                       @ fst (calculateComparisons (getLatestSnapshot (db u)) fs fg),
                     ToastError e)
         | Inr r \<Rightarrow> (u\<lparr>db := fst (saveSnapshot (db u) now fs fg), currentData := Some r\<rparr>,
                     [NormalizeFollowers, NormalizeFollowing, GetLatestSnapshot, SaveSnapshot]
                       @ fst (calculateComparisons (getLatestSnapshot (db u)) fs fg),
                     ToastComplete))"
proof (cases "uploadedFollowers u")
  case None
  then show ?thesis by (intro missing) (simp_all add: analyzeData_def)
next
  case (Some fj)
  note fj = this
  show ?thesis
  proof (cases "uploadedFollowing u")
    case None
    with fj show ?thesis by (intro missing) (simp_all add: analyzeData_def)
  next
    case (Some gj)
    note gj = this
    show ?thesis
    proof (cases "parseFollowers fj")
      case (Inl e)
      with fj gj show ?thesis by (intro followers_fail) (simp_all add: analyzeData_def)
    next
      case (Inr fs)
      note fs = this
      show ?thesis
      proof (cases "parseFollowing gj")
        case (Inl e)
        with fj gj fs show ?thesis by (intro following_fail) (simp_all add: analyzeData_def)
      next
        case (Inr fg)
        with fj gj fs show ?thesis
          by (intro parsed) (auto simp: analyzeData_def Let_def split: sum.splits)
      qed
    qed
  qed
qed

text \<open>
  C5. When the store holds no snapshot (or is unavailable), a run of \<open>analyzeData\<close> calls
  neither \<open>findUnfollowers\<close> nor \<open>findNewFollowers\<close>, whatever else happens in the run;
  when the run completes, the unfollowers and the new followers of its result are empty;
  and the run does complete when both files parse into user records.
\<close>

theorem no_history_no_engine_call:
  assumes "getSnapshots (db u) = []"
  shows "(\<forall>p c. FindUnfollowers p c \<notin> set (fst (snd (analyzeData now u)))
              \<and> FindNewFollowers p c \<notin> set (fst (snd (analyzeData now u))))
       \<and> (snd (snd (analyzeData now u)) = ToastComplete \<longrightarrow>
            (\<exists>r. currentData (fst (analyzeData now u)) = Some r
                 \<and> unfollowers r = [] \<and> newFollowers r = []))
       \<and> (\<forall>fj gj fs fg.
            uploadedFollowers u = Some fj \<and> uploadedFollowing u = Some gj
            \<and> parseFollowers fj = Inr fs \<and> parseFollowing gj = Inr fg
            \<and> (\<forall>x \<in> set fs \<union> set fg. isUserRecord x)
            \<longrightarrow> snd (snd (analyzeData now u)) = ToastComplete)"
proof -
  from assms have none: "getLatestSnapshot (db u) = None"
    by (rule getLatestSnapshot_empty)
  show ?thesis
  proof (cases rule: analyzeData_cases [where u = u and now = now])
    case missing
    then show ?thesis by auto
  next
    case (followers_fail fj gj e)
    then show ?thesis by auto
  next
    case (following_fail fj gj fs e)
    then show ?thesis by auto
  next
    case (parsed fj gj fs fg)
    show ?thesis
    proof (cases "findNotFollowingBack fs fg")
      case (Inl e)
      with none parsed have "analyzeData now u =
        (u\<lparr>db := fst (saveSnapshot (db u) now fs fg)\<rparr>,
         [NormalizeFollowers, NormalizeFollowing, GetLatestSnapshot, SaveSnapshot,
          FindNotFollowingBack fs fg], ToastError e)"
        by (simp add: calculateComparisons_def)
      moreover have "\<not> (\<forall>x \<in> set fs \<union> set fg. isUserRecord x)"
      proof
        assume "\<forall>x \<in> set fs \<union> set fg. isUserRecord x"
        then have "\<forall>x \<in> set fg \<union> set fs. isUserRecord x" by auto
        from engine_on_user_records [OF this] Inl show False by simp
      qed
      ultimately show ?thesis using parsed by auto
    next
      case (Inr n)
      with none parsed have "analyzeData now u =
        (u\<lparr>db := fst (saveSnapshot (db u) now fs fg),
           currentData := Some \<lparr>followers = fs, following = fg, unfollowers = [],
             newFollowers = [], notFollowingBack = n\<rparr>\<rparr>,
         [NormalizeFollowers, NormalizeFollowing, GetLatestSnapshot, SaveSnapshot,
          FindNotFollowingBack fs fg], ToastComplete)"
        by (simp add: calculateComparisons_def)
      then show ?thesis by simp
    qed
  qed
qed

text \<open>
  C6. In every run of \<open>analyzeData\<close>, a call of \<open>findUnfollowers\<close> or \<open>findNewFollowers\<close>
  gets as its previous list the followers of the latest snapshot of the store as it was
  before the run, a snapshot whose key is below the key the run's own snapshot receives,
  and as its current list the parsed followers file. When the run saves a snapshot, the
  run's first four calls are the two normalizations, the read of the latest snapshot and
  the save, in this order: both files have been parsed, and the store after the run is the
  store before it with the one new snapshot appended. A run that changes the store has made
  that save, so no run persists a snapshot after a failed normalization.
\<close>

theorem previous_read_before_append:
  "(\<forall>p c. FindUnfollowers p c \<in> set (fst (snd (analyzeData now u)))
            \<or> FindNewFollowers p c \<in> set (fst (snd (analyzeData now u))) \<longrightarrow>
      (\<exists>s fj. getLatestSnapshot (db u) = Some s \<and> s \<in> set (snapshotStore (db u))
          \<and> p = snapshot.followers s
          \<and> uploadedFollowers u = Some fj \<and> parseFollowers fj = Inr c
          \<and> (storeInvariant (db u) \<longrightarrow> snapshotId s < keyGenerator (db u))))
   \<and> (SaveSnapshot \<in> set (fst (snd (analyzeData now u))) \<longrightarrow>
        take 4 (fst (snd (analyzeData now u))) =
          [NormalizeFollowers, NormalizeFollowing, GetLatestSnapshot, SaveSnapshot]
      \<and> (\<exists>fj gj fs fg.
            uploadedFollowers u = Some fj \<and> parseFollowers fj = Inr fs
          \<and> uploadedFollowing u = Some gj \<and> parseFollowing gj = Inr fg
          \<and> db (fst (analyzeData now u)) = fst (saveSnapshot (db u) now fs fg)
          \<and> (isAvailable (db u) \<longrightarrow>
               snapshotStore (db (fst (analyzeData now u))) =
                 snapshotStore (db u) @
                   [\<lparr>snapshotId = keyGenerator (db u), date = now, followers = fs,
                     following = fg\<rparr>])))
   \<and> (db (fst (analyzeData now u)) \<noteq> db u \<longrightarrow>
        SaveSnapshot \<in> set (fst (snd (analyzeData now u))))"
proof (cases rule: analyzeData_cases [where u = u and now = now])
  case missing
  then show ?thesis by simp
next
  case (followers_fail fj gj e)
  then show ?thesis by simp
next
  case (following_fail fj gj fs e)
  then show ?thesis by simp
next
  case (parsed fj gj fs fg)
  let ?cmp = "calculateComparisons (getLatestSnapshot (db u)) fs fg"
  from parsed(5) have calls: "fst (snd (analyzeData now u)) =
      [NormalizeFollowers, NormalizeFollowing, GetLatestSnapshot, SaveSnapshot] @ fst ?cmp"
    and dbs: "db (fst (analyzeData now u)) = fst (saveSnapshot (db u) now fs fg)"
    by (simp_all split: sum.splits)
  have engine: "\<exists>s fj. getLatestSnapshot (db u) = Some s \<and> s \<in> set (snapshotStore (db u))
          \<and> p = snapshot.followers s
          \<and> uploadedFollowers u = Some fj \<and> parseFollowers fj = Inr c
          \<and> (storeInvariant (db u) \<longrightarrow> snapshotId s < keyGenerator (db u))"
    if "FindUnfollowers p c \<in> set (fst (snd (analyzeData now u)))
            \<or> FindNewFollowers p c \<in> set (fst (snd (analyzeData now u)))" for p c
  proof -
    from that calls have "FindUnfollowers p c \<in> set (fst ?cmp)
        \<or> FindNewFollowers p c \<in> set (fst ?cmp)"
      by simp
    then obtain s where s: "getLatestSnapshot (db u) = Some s" "p = snapshot.followers s" "c = fs"
      using calculateComparisons_engine_args by blast
    from s(1) have "s \<in> set (snapshotStore (db u))"
      using getLatestSnapshot_member by blast
    with s parsed(1,3) show ?thesis
      by (auto simp: storeInvariant_def)
  qed
  have store: "snapshotStore (fst (saveSnapshot (db u) now fs fg)) =
      snapshotStore (db u) @
        [\<lparr>snapshotId = keyGenerator (db u), date = now, followers = fs, following = fg\<rparr>]"
    if "isAvailable (db u)"
    using that by (simp add: saveSnapshot_def)
  from calls have "take 4 (fst (snd (analyzeData now u))) =
      [NormalizeFollowers, NormalizeFollowing, GetLatestSnapshot, SaveSnapshot]"
    by simp
  moreover from calls have "SaveSnapshot \<in> set (fst (snd (analyzeData now u)))"
    by simp
  ultimately show ?thesis
    using engine parsed(1-4) dbs store
    by (intro conjI allI impI) auto
qed


lemmas run_defs =
  analyzeData_def controller_def emptyDatabase_def exportFollowers_def exportFollowing_def
  plainRecord_def parseFollowers_def parseFollowing_def entriesGuarded_def pushEntry_def
  userRecord_def followingItem_def pushTitle_def getLatestSnapshot_def getSnapshots_def
  sortNewestFirst_def saveSnapshot_def calculateComparisons_def findUnfollowers_def
  findNewFollowers_def findNotFollowingBack_def lowerName_def toLowerCase_def toLowerChar_def
  Let_def

theorem no_history_no_engine_call_witness:
  "getSnapshots (db (controller emptyDatabase (exportFollowers [''a'', ''b''])
      (exportFollowing [''a'', ''c'']))) = []
   \<and> analyzeData 1000
        (controller emptyDatabase (exportFollowers [''a'', ''b'']) (exportFollowing [''a'', ''c'']))
     = ((controller emptyDatabase (exportFollowers [''a'', ''b''])
           (exportFollowing [''a'', ''c'']))
         \<lparr>db := emptyDatabase
            \<lparr>snapshotStore :=
               [\<lparr>snapshotId = 1, date = 1000,
                 followers = [plainRecord ''a'', plainRecord ''b''],
                 following = [plainRecord ''a'', plainRecord ''c'']\<rparr>],
             keyGenerator := 2\<rparr>,
          currentData := Some
            \<lparr>followers = [plainRecord ''a'', plainRecord ''b''],
             following = [plainRecord ''a'', plainRecord ''c''],
             unfollowers = [], newFollowers = [],
             notFollowingBack = [plainRecord ''c'']\<rparr>\<rparr>,
        [NormalizeFollowers, NormalizeFollowing, GetLatestSnapshot, SaveSnapshot,
         FindNotFollowingBack [plainRecord ''a'', plainRecord ''b'']
           [plainRecord ''a'', plainRecord ''c'']],
        ToastComplete)"
  using no_history_no_engine_call
    [of "controller emptyDatabase (exportFollowers [''a'', ''b''])
          (exportFollowing [''a'', ''c''])" 1000]
  by (simp add: run_defs)

theorem previous_read_before_append_witness:
  "analyzeData 2000
     (controller
        (emptyDatabase
          \<lparr>snapshotStore :=
             [\<lparr>snapshotId = 1, date = 1000,
               followers = [plainRecord ''a'', plainRecord ''b''],
               following = [plainRecord ''a'']\<rparr>],
           keyGenerator := 2\<rparr>)
        (exportFollowers [''a'', ''c'']) (exportFollowing [''a'']))
   = ((controller
        (emptyDatabase
          \<lparr>snapshotStore :=
             [\<lparr>snapshotId = 1, date = 1000,
               followers = [plainRecord ''a'', plainRecord ''b''],
               following = [plainRecord ''a'']\<rparr>],
           keyGenerator := 2\<rparr>)
        (exportFollowers [''a'', ''c'']) (exportFollowing [''a'']))
       \<lparr>db := emptyDatabase
          \<lparr>snapshotStore :=
             [\<lparr>snapshotId = 1, date = 1000,
               followers = [plainRecord ''a'', plainRecord ''b''],
               following = [plainRecord ''a'']\<rparr>,
              \<lparr>snapshotId = 2, date = 2000,
               followers = [plainRecord ''a'', plainRecord ''c''],
               following = [plainRecord ''a'']\<rparr>],
           keyGenerator := 3\<rparr>,
        currentData := Some
          \<lparr>followers = [plainRecord ''a'', plainRecord ''c''],
           following = [plainRecord ''a''],
           unfollowers = [plainRecord ''b''], newFollowers = [plainRecord ''c''],
           notFollowingBack = []\<rparr>\<rparr>,
      [NormalizeFollowers, NormalizeFollowing, GetLatestSnapshot, SaveSnapshot,
       FindUnfollowers [plainRecord ''a'', plainRecord ''b''] [plainRecord ''a'', plainRecord ''c''],
       FindNewFollowers [plainRecord ''a'', plainRecord ''b''] [plainRecord ''a'', plainRecord ''c''],
       FindNotFollowingBack [plainRecord ''a'', plainRecord ''c''] [plainRecord ''a'']],
      ToastComplete)"
  using previous_read_before_append
    [of 2000 "controller
        (emptyDatabase
          \<lparr>snapshotStore :=
             [\<lparr>snapshotId = 1, date = 1000,
               followers = [plainRecord ''a'', plainRecord ''b''],
               following = [plainRecord ''a'']\<rparr>],
           keyGenerator := 2\<rparr>)
        (exportFollowers [''a'', ''c'']) (exportFollowing [''a''])"]
  by (simp add: run_defs)


section \<open>Falsy metadata in the normalizers\<close>

lemma forEach_append:
  "forEach f (xs @ ys) users = bindE (forEach f xs users) (forEach f ys)"
  by (induction xs arbitrary: users) (auto simp: bindE_def split: sum.splits)

lemma forEach_replace:
  assumes "\<And>users. f x users = f x' users"
  shows "forEach f (xs @ x # ys) users = forEach f (xs @ x' # ys) users"
proof -
  have "forEach f (x # ys) = forEach f (x' # ys)"
    by (rule ext) (simp add: assms)
  then show ?thesis by (simp only: forEach_append)
qed

lemma forEach_grows:
  assumes "forEach f xs users = Inr us"
    and "\<And>x users us. f x users = Inr us \<Longrightarrow> \<exists>new. us = users @ new"
  shows "\<exists>new. us = users @ new"
  using assms(1)
proof (rule forEach_invariant [where P = "\<lambda>us. \<exists>new. us = users @ new"])
  fix x us1 us2
  assume "f x us1 = Inr us2" and "\<exists>new. us1 = users @ new"
  then show "\<exists>new. us2 = users @ new"
    using assms(2) by fastforce
qed simp

lemma forEach_member:
  assumes run: "forEach f (xs @ x # ys) users = Inr us"
    and grows: "\<And>x users us. f x users = Inr us \<Longrightarrow> \<exists>new. us = users @ new"
    and here: "\<And>users us. f x users = Inr us \<Longrightarrow> r \<in> set us"
  shows "r \<in> set us"
proof -
  from run obtain u1 where u1: "forEach f xs users = Inr u1"
    and rest: "forEach f (x # ys) u1 = Inr us"
    by (cases "forEach f xs users") (simp_all add: forEach_append)
  from rest obtain u2 where u2: "f x u1 = Inr u2" and tl: "forEach f ys u2 = Inr us"
    by (cases "f x u1") simp_all
  from u2 have "r \<in> set u2" by (rule here)
  moreover from tl grows have "\<exists>new. us = u2 @ new" by (rule forEach_grows)
  ultimately show ?thesis by auto
qed

lemma pushEntry_grows: "pushEntry data users = Inr us \<Longrightarrow> \<exists>new. us = users @ new"
  by (auto simp: pushEntry_def bindE_def split: sum.splits option.splits if_splits)

lemma entriesGuarded_grows: "entriesGuarded item users = Inr us \<Longrightarrow> \<exists>new. us = users @ new"
  by (auto simp: entriesGuarded_def bindE_def split: sum.splits option.splits json.splits
      dest: forEach_grows [OF _ pushEntry_grows])

lemma entriesUnguarded_grows: "entriesUnguarded item users = Inr us \<Longrightarrow> \<exists>new. us = users @ new"
  by (auto simp: entriesUnguarded_def bindE_def
      split: sum.splits option.splits json.splits if_splits
      dest: forEach_grows [OF _ pushEntry_grows])

lemma pushTitle_grows: "pushTitle item t users = Inr us \<Longrightarrow> \<exists>new. us = users @ new"
  by (auto simp: pushTitle_def bindE_def split: sum.splits)

lemma followingItem_grows:
  assumes "followingItem fallback item users = Inr us"
    and "\<And>item users us. fallback item users = Inr us \<Longrightarrow> \<exists>new. us = users @ new"
  shows "\<exists>new. us = users @ new"
  using assms(1)
  by (auto simp: followingItem_def bindE_def split: sum.splits option.splits if_splits
      dest: pushTitle_grows assms(2))

lemma withEntries_field:
  "field item ''string_list_data'' = Some x \<Longrightarrow>
   field (withEntries item ds) k =
     (if k = ''string_list_data'' then Some (JArr ds) else field item k)"
  by (cases item) auto

lemma withEntries_not_null:
  "field item ''string_list_data'' = Some x \<Longrightarrow> item \<noteq> JNull \<and> withEntries item ds \<noteq> JNull"
  by (cases item) auto

lemma entriesGuarded_replace:
  assumes "\<And>users. pushEntry e users = pushEntry e' users"
    and "field item ''string_list_data'' = Some (JArr (es1 @ e # es2))"
  shows "entriesGuarded item users = entriesGuarded (withEntries item (es1 @ e' # es2)) users"
  using withEntries_not_null [OF assms(2), of "es1 @ e' # es2"] assms(2)
    forEach_replace [of pushEntry e e' es1 es2 users, OF assms(1)]
  by (simp add: entriesGuarded_def getProp_field withEntries_field)

lemma entriesUnguarded_replace:
  assumes "\<And>users. pushEntry e users = pushEntry e' users"
    and "field item ''string_list_data'' = Some (JArr (es1 @ e # es2))"
  shows "entriesUnguarded item users = entriesUnguarded (withEntries item (es1 @ e' # es2)) users"
  using withEntries_not_null [OF assms(2), of "es1 @ e' # es2"] assms(2)
    forEach_replace [of pushEntry e e' es1 es2 users, OF assms(1)]
  by (simp add: entriesUnguarded_def getProp_field withEntries_field)

lemma pushTitle_replace:
  assumes "userRecord t (JObj kvs) = userRecord t (JObj kvs')"
    and "field item ''string_list_data'' = Some (JArr (es1 @ JObj kvs # es2))"
  shows "pushTitle item t users =
         pushTitle (withEntries item (es1 @ JObj kvs' # es2)) t users"
  using withEntries_not_null [OF assms(2), of "es1 @ JObj kvs' # es2"] assms
  by (cases es1) (simp_all add: pushTitle_def getProp_field withEntries_field)

lemma followingItem_replace:
  assumes "userRecord (titleOf item) (JObj kvs) = userRecord (titleOf item) (JObj kvs')"
    and "field item ''string_list_data'' = Some (JArr (es1 @ JObj kvs # es2))"
    and "fallback item users = fallback (withEntries item (es1 @ JObj kvs' # es2)) users"
  shows "followingItem fallback item users =
         followingItem fallback (withEntries item (es1 @ JObj kvs' # es2)) users"
proof (cases "truthyOpt (field item ''title'')")
  case True
  then obtain t where t: "field item ''title'' = Some t" "truthy t"
    by (cases "field item ''title''") auto
  then have "titleOf item = t" by (simp add: titleOf_def)
  with assms(1) have "userRecord t (JObj kvs) = userRecord t (JObj kvs')" by simp
  from pushTitle_replace [OF this assms(2)] t
    withEntries_not_null [OF assms(2), of "es1 @ JObj kvs' # es2"] assms(2)
  show ?thesis
    by (simp add: followingItem_def getProp_field withEntries_field)
next
  case False
  with assms(3) withEntries_not_null [OF assms(2), of "es1 @ JObj kvs' # es2"] assms(2)
  show ?thesis
    by (cases "field item ''title''")
      (simp_all add: followingItem_def getProp_field withEntries_field)
qed

lemma parseFollowers_replace:
  assumes "\<And>users. entriesGuarded item users = entriesGuarded item' users"
    and "truthyOpt (field item ''string_list_data'')" "truthyOpt (field item' ''string_list_data'')"
  shows "parseFollowers (JArr (pre @ item # post)) = parseFollowers (JArr (pre @ item' # post))"
proof -
  from assms(2,3) have nn: "item \<noteq> JNull" "item' \<noteq> JNull" by auto
  have fe: "forEach entriesGuarded (xs @ item # post) = forEach entriesGuarded (xs @ item' # post)"
    for xs
    by (rule ext, rule forEach_replace) (rule assms(1))
  from assms(2,3) nn show ?thesis
    by (cases pre) (simp_all add: parseFollowers_def getProp_field fe assms(1) cong: if_cong)
qed

lemma parseFollowing_bare_replace:
  assumes "\<And>users. followingItem entriesGuarded item users = followingItem entriesGuarded item' users"
    and "truthyOpt (field item ''string_list_data'')" "truthyOpt (field item' ''string_list_data'')"
  shows "parseFollowing (JArr (pre @ item # post)) = parseFollowing (JArr (pre @ item' # post))"
proof -
  from assms(2,3) have nn: "item \<noteq> JNull" "item' \<noteq> JNull" by auto
  have fe: "forEach (followingItem entriesGuarded) (xs @ item # post)
      = forEach (followingItem entriesGuarded) (xs @ item' # post)" for xs
    by (rule ext, rule forEach_replace) (rule assms(1))
  from assms(2,3) nn show ?thesis
    by (cases pre) (simp_all add: parseFollowing_def getProp_field fe assms(1) cong: if_cong)
qed

lemma parseFollowing_wrapped_replace:
  assumes "\<And>users. followingItem entriesUnguarded item users
                 = followingItem entriesUnguarded item' users"
  shows "parseFollowing (JObj [(''relationships_following'', JArr (pre @ item # post))])
       = parseFollowing (JObj [(''relationships_following'', JArr (pre @ item' # post))])"
proof -
  have "forEach (followingItem entriesUnguarded) (pre @ item # post) []
      = forEach (followingItem entriesUnguarded) (pre @ item' # post) []"
    by (rule forEach_replace) (rule assms(1))
  then show ?thesis
    by (simp add: parseFollowing_def)
qed

lemma pushEntry_valued:
  "map_of kvs ''value'' = Some name \<Longrightarrow> truthy name \<Longrightarrow>
   pushEntry (JObj kvs) users = Inr (users @ [metaRecord name kvs])"
  by (simp add: pushEntry_def userRecord_def metaRecord_def)

lemma entriesGuarded_member:
  assumes "field item ''string_list_data'' = Some (JArr (es1 @ JObj kvs # es2))"
    and "map_of kvs ''value'' = Some name" "truthy name"
    and "entriesGuarded item users = Inr us"
  shows "metaRecord name kvs \<in> set us"
proof -
  from assms(1) have "item \<noteq> JNull" by auto
  with assms(1,4) have "forEach pushEntry (es1 @ JObj kvs # es2) users = Inr us"
    by (simp add: entriesGuarded_def getProp_field)
  then show ?thesis
    by (rule forEach_member) (auto simp: pushEntry_valued [OF assms(2,3)] dest: pushEntry_grows)
qed

lemma entriesUnguarded_member:
  assumes "field item ''string_list_data'' = Some (JArr (es1 @ JObj kvs # es2))"
    and "map_of kvs ''value'' = Some name" "truthy name"
    and "entriesUnguarded item users = Inr us"
  shows "metaRecord name kvs \<in> set us"
proof -
  from assms(1) have "item \<noteq> JNull" by auto
  with assms(1,4) have "forEach pushEntry (es1 @ JObj kvs # es2) users = Inr us"
    by (simp add: entriesUnguarded_def getProp_field)
  then show ?thesis
    by (rule forEach_member) (auto simp: pushEntry_valued [OF assms(2,3)] dest: pushEntry_grows)
qed

lemma pushTitle_first_entry:
  "field item ''string_list_data'' = Some (JArr (JObj kvs # rest)) \<Longrightarrow>
   pushTitle item t users = Inr (users @ [metaRecord t kvs])"
  by (cases item) (simp_all add: pushTitle_def userRecord_def metaRecord_def)

lemma followingItem_titled_first_entry:
  assumes "field item ''title'' = Some t" "truthy t"
    and "field item ''string_list_data'' = Some (JArr (JObj kvs # rest))"
  shows "followingItem fallback item users = Inr (users @ [metaRecord t kvs])"
proof -
  from assms(1) have "item \<noteq> JNull" by auto
  with assms show ?thesis
    by (simp add: followingItem_def getProp_field pushTitle_first_entry)
qed

lemma parseFollowers_forEach:
  "parseFollowers (JArr (pre @ item # post)) = Inr us \<Longrightarrow>
   forEach entriesGuarded (pre @ item # post) [] = Inr us"
  by (cases "pre @ item # post")
    (auto simp: parseFollowers_def bindE_def split: sum.splits if_splits)

lemma parseFollowing_bare_forEach:
  "parseFollowing (JArr (pre @ item # post)) = Inr us \<Longrightarrow>
   forEach (followingItem entriesGuarded) (pre @ item # post) [] = Inr us"
  by (cases "pre @ item # post")
    (auto simp: parseFollowing_def bindE_def split: sum.splits if_splits)

lemma parseFollowing_wrapped_forEach:
  "parseFollowing (JObj [(''relationships_following'', JArr items)]) = Inr us \<Longrightarrow>
   forEach (followingItem entriesUnguarded) items [] = Inr us"
  by (simp add: parseFollowing_def)

lemma followingItem_grows_guarded:
  "followingItem entriesGuarded item users = Inr us \<Longrightarrow> \<exists>new. us = users @ new"
  by (erule followingItem_grows) (rule entriesGuarded_grows)

lemma followingItem_grows_unguarded:
  "followingItem entriesUnguarded item users = Inr us \<Longrightarrow> \<exists>new. us = users @ new"
  by (erule followingItem_grows) (rule entriesUnguarded_grows)

lemma falsy_metadata_null:
  assumes "(k = ''timestamp'' \<and> v = JNum 0) \<or> (k = ''href'' \<and> v = JStr [])"
    and "map_of kvs k = Some v"
  shows "field (metaRecord name kvs) k = Some JNull"
  using assms by (auto simp: metaRecord_def)

text \<open>
  C10. Take an entry whose \<^verbatim>\<open>timestamp\<close> is present and 0 (or whose \<^verbatim>\<open>href\<close> is the empty
  string), inside the \<^verbatim>\<open>string_list_data\<close> of an element anywhere in an export. The record
  made of the entry has \<^verbatim>\<open>null\<close> in that field. Both normalizers, in both shapes of a
  following export, return on the export exactly what they return on the export in which
  the entry has no such field at all. When the entry holds a value, its record with the
  \<^verbatim>\<open>null\<close> field is among the records of every successful parse of a followers export,
  and of a following export when the element has no title; when the element has a title
  and the entry is its first, the record of the title has the \<^verbatim>\<open>null\<close> field. On the
  export of that one element alone the parse succeeds and returns exactly this record.
\<close>

theorem zero_timestamp_is_null:
  assumes z: "(k = ''timestamp'' \<and> v = JNum 0) \<or> (k = ''href'' \<and> v = JStr [])"
    and kv: "map_of kvs k = Some v"
    and sld: "field item ''string_list_data'' = Some (JArr (es1 @ JObj kvs # es2))"
  shows "(\<forall>name. field (metaRecord name kvs) k = Some JNull)
    \<and> parseFollowers (JArr (pre @ item # post)) =
        parseFollowers
          (JArr (pre @ withEntries item (es1 @ JObj (delProp k kvs) # es2) # post))
    \<and> parseFollowing (JArr (pre @ item # post)) =
        parseFollowing
          (JArr (pre @ withEntries item (es1 @ JObj (delProp k kvs) # es2) # post))
    \<and> parseFollowing (JObj [(''relationships_following'', JArr (pre @ item # post))]) =
        parseFollowing (JObj [(''relationships_following'',
          JArr (pre @ withEntries item (es1 @ JObj (delProp k kvs) # es2) # post))])
    \<and> (\<forall>name us. map_of kvs ''value'' = Some name \<and> truthy name \<longrightarrow>
          (parseFollowers (JArr (pre @ item # post)) = Inr us \<longrightarrow>
             metaRecord name kvs \<in> set us)
        \<and> (\<not> truthyOpt (field item ''title'') \<longrightarrow>
             (parseFollowing (JArr (pre @ item # post)) = Inr us \<longrightarrow>
                metaRecord name kvs \<in> set us)
           \<and> (parseFollowing (JObj [(''relationships_following'', JArr (pre @ item # post))])
                 = Inr us \<longrightarrow> metaRecord name kvs \<in> set us))
        \<and> parseFollowers (JArr [JObj [(''string_list_data'', JArr [JObj kvs])]])
            = Inr [metaRecord name kvs]
        \<and> parseFollowing (JArr [JObj [(''string_list_data'', JArr [JObj kvs])]])
            = Inr [metaRecord name kvs]
        \<and> parseFollowing (JObj [(''relationships_following'',
              JArr [JObj [(''string_list_data'', JArr [JObj kvs])]])])
            = Inr [metaRecord name kvs])
    \<and> (\<forall>t us. truthy t \<and> field item ''title'' = Some t \<and> es1 = [] \<longrightarrow>
          (parseFollowing (JArr (pre @ item # post)) = Inr us \<longrightarrow>
             metaRecord t kvs \<in> set us)
        \<and> (parseFollowing (JObj [(''relationships_following'', JArr (pre @ item # post))])
              = Inr us \<longrightarrow> metaRecord t kvs \<in> set us))
    \<and> (\<forall>t. truthy t \<longrightarrow>
          parseFollowing
            (JArr [JObj [(''title'', t), (''string_list_data'', JArr [JObj kvs])]])
            = Inr [metaRecord t kvs]
        \<and> parseFollowing (JObj [(''relationships_following'',
              JArr [JObj [(''title'', t), (''string_list_data'', JArr [JObj kvs])]])])
            = Inr [metaRecord t kvs])"
proof -
  let ?item' = "withEntries item (es1 @ JObj (delProp k kvs) # es2)"
  from z have falsy: "\<not> truthy v" and key: "k = ''timestamp'' \<or> k = ''href''"
    by auto
  from sld have nn: "item \<noteq> JNull" by auto
  have ue: "userRecord t (JObj kvs) = userRecord t (JObj (delProp k kvs))" for t
    using kv falsy key by (rule userRecord_falsy_field)
  have pe: "pushEntry (JObj kvs) users = pushEntry (JObj (delProp k kvs)) users" for users
    using kv falsy key by (rule pushEntry_falsy_field)
  have eg: "entriesGuarded item users = entriesGuarded ?item' users" for users
    using pe sld by (rule entriesGuarded_replace)
  have eu: "entriesUnguarded item users = entriesUnguarded ?item' users" for users
    using pe sld by (rule entriesUnguarded_replace)
  have fg: "followingItem entriesGuarded item users = followingItem entriesGuarded ?item' users"
    for users
    using ue sld eg by (rule followingItem_replace)
  have fu: "followingItem entriesUnguarded item users
      = followingItem entriesUnguarded ?item' users" for users
    using ue sld eu by (rule followingItem_replace)
  have tr: "truthyOpt (field item ''string_list_data'')"
    "truthyOpt (field ?item' ''string_list_data'')"
    using sld by (simp_all add: withEntries_field)
  have c1: "\<forall>name. field (metaRecord name kvs) k = Some JNull"
    using z kv by (simp add: falsy_metadata_null)
  have c2: "parseFollowers (JArr (pre @ item # post)) = parseFollowers (JArr (pre @ ?item' # post))"
    using eg tr by (rule parseFollowers_replace)
  have c3: "parseFollowing (JArr (pre @ item # post)) = parseFollowing (JArr (pre @ ?item' # post))"
    using fg tr by (rule parseFollowing_bare_replace)
  have c4: "parseFollowing (JObj [(''relationships_following'', JArr (pre @ item # post))]) =
        parseFollowing (JObj [(''relationships_following'', JArr (pre @ ?item' # post))])"
    using fu by (rule parseFollowing_wrapped_replace)
  have m1: "metaRecord name kvs \<in> set us"
    if "map_of kvs ''value'' = Some name" "truthy name"
      and "parseFollowers (JArr (pre @ item # post)) = Inr us" for name us
    using parseFollowers_forEach [OF that(3)]
    by (rule forEach_member)
      (auto dest: entriesGuarded_grows entriesGuarded_member [OF sld that(1,2)])
  have m2: "metaRecord name kvs \<in> set us"
    if "map_of kvs ''value'' = Some name" "truthy name" "\<not> truthyOpt (field item ''title'')"
      and "parseFollowing (JArr (pre @ item # post)) = Inr us" for name us
    using parseFollowing_bare_forEach [OF that(4)]
    by (rule forEach_member)
      (auto simp: followingItem_untitled [OF nn that(3)]
        dest: followingItem_grows_guarded entriesGuarded_member [OF sld that(1,2)])
  have m3: "metaRecord name kvs \<in> set us"
    if "map_of kvs ''value'' = Some name" "truthy name" "\<not> truthyOpt (field item ''title'')"
      and "parseFollowing (JObj [(''relationships_following'', JArr (pre @ item # post))]) = Inr us"
    for name us
    using parseFollowing_wrapped_forEach [OF that(4)]
    by (rule forEach_member)
      (auto simp: followingItem_untitled [OF nn that(3)]
        dest: followingItem_grows_unguarded entriesUnguarded_member [OF sld that(1,2)])
  have s1: "parseFollowers (JArr [JObj [(''string_list_data'', JArr [JObj kvs])]])
            = Inr [metaRecord name kvs]"
    and s2: "parseFollowing (JArr [JObj [(''string_list_data'', JArr [JObj kvs])]])
            = Inr [metaRecord name kvs]"
    and s3: "parseFollowing (JObj [(''relationships_following'',
              JArr [JObj [(''string_list_data'', JArr [JObj kvs])]])])
            = Inr [metaRecord name kvs]"
    if "map_of kvs ''value'' = Some name" "truthy name" for name
    using that
    by (simp_all add: parseFollowers_def parseFollowing_def followingItem_def
        entriesGuarded_def entriesUnguarded_def pushEntry_valued)
  have t1: "metaRecord t kvs \<in> set us"
    if "truthy t" "field item ''title'' = Some t" "es1 = []"
      and "parseFollowing (JArr (pre @ item # post)) = Inr us" for t us
  proof -
    from sld that(3) have "field item ''string_list_data'' = Some (JArr (JObj kvs # es2))"
      by simp
    note fi = followingItem_titled_first_entry [OF that(2,1) this]
    from parseFollowing_bare_forEach [OF that(4)] show ?thesis
      by (rule forEach_member) (auto simp: fi dest: followingItem_grows_guarded)
  qed
  have t2: "metaRecord t kvs \<in> set us"
    if "truthy t" "field item ''title'' = Some t" "es1 = []"
      and "parseFollowing (JObj [(''relationships_following'', JArr (pre @ item # post))]) = Inr us"
    for t us
  proof -
    from sld that(3) have "field item ''string_list_data'' = Some (JArr (JObj kvs # es2))"
      by simp
    note fi = followingItem_titled_first_entry [OF that(2,1) this]
    from parseFollowing_wrapped_forEach [OF that(4)] show ?thesis
      by (rule forEach_member) (auto simp: fi dest: followingItem_grows_unguarded)
  qed
  have s4: "parseFollowing
            (JArr [JObj [(''title'', t), (''string_list_data'', JArr [JObj kvs])]])
            = Inr [metaRecord t kvs]"
    and s5: "parseFollowing (JObj [(''relationships_following'',
              JArr [JObj [(''title'', t), (''string_list_data'', JArr [JObj kvs])]])])
            = Inr [metaRecord t kvs]"
    if "truthy t" for t
    using that
    by (simp_all add: parseFollowing_def followingItem_def pushTitle_def userRecord_def
        metaRecord_def)
  from c1 c2 c3 c4 m1 m2 m3 s1 s2 s3 t1 t2 s4 s5 show ?thesis
    by blast
qed


theorem zero_timestamp_is_null_witness:
  "parseFollowers (JArr [JObj [(''string_list_data'',
      JArr [JObj [(''value'', JStr ''alice''), (''timestamp'', JNum 0), (''href'', JStr [])]])]])
   = Inr [JObj [(''username'', JStr ''alice''), (''timestamp'', JNull), (''href'', JNull)]]
   \<and> parseFollowers (JArr [JObj [(''string_list_data'',
      JArr [JObj [(''value'', JStr ''alice''), (''href'', JStr [])]])]])
   = Inr [JObj [(''username'', JStr ''alice''), (''timestamp'', JNull), (''href'', JNull)]]
   \<and> parseFollowing (JObj [(''relationships_following'',
      JArr [JObj [(''title'', JStr ''bob''), (''string_list_data'',
        JArr [JObj [(''value'', JStr ''alice''), (''timestamp'', JNum 0), (''href'', JStr [])]])]])])
   = Inr [JObj [(''username'', JStr ''bob''), (''timestamp'', JNull), (''href'', JNull)]]"
  using zero_timestamp_is_null
    [of "''timestamp''" "JNum 0"
        "[(''value'', JStr ''alice''), (''timestamp'', JNum 0), (''href'', JStr [])]"
        "JObj [(''string_list_data'',
           JArr [JObj [(''value'', JStr ''alice''), (''timestamp'', JNum 0), (''href'', JStr [])]])]"
        "[]" "[]" "[]" "[]"]
  by (simp add: metaRecord_def delProp_def parseFollowers_def parseFollowing_def
      followingItem_def entriesGuarded_def entriesUnguarded_def pushEntry_def pushTitle_def
      userRecord_def)


section \<open>Where the key of a comparison comes from\<close>

lemma lowerName_withKey: "lowerName (withKey key u) = lowerName u"
  by (cases u) (simp_all add: lowerName_def)

lemma mapE_lowerName_withKey:
  "mapE lowerName (map (\<lambda>u. withKey (key u) u) xs) = mapE lowerName xs"
  by (induction xs) (simp_all add: lowerName_withKey)

lemma filterE_withKey:
  "filterE (\<lambda>u. bindE (lowerName u) (\<lambda>k. Inr (P k))) (map (\<lambda>u. withKey (key u) u) xs) =
   map_sum id (map (\<lambda>u. withKey (key u) u))
     (filterE (\<lambda>u. bindE (lowerName u) (\<lambda>k. Inr (P k))) xs)"
proof (induction xs)
  case Nil
  show ?case by simp
next
  case (Cons x xs)
  show ?case
  proof (cases "lowerName x")
    case (Inl e)
    then show ?thesis by (simp add: lowerName_withKey)
  next
    case (Inr k)
    then show ?thesis
      by (cases "filterE (\<lambda>u. bindE (lowerName u) (\<lambda>k. Inr (P k))) xs")
        (simp_all add: lowerName_withKey Cons.IH)
  qed
qed

lemma engine_ignores_stored_key:
  "findUnfollowers (map (\<lambda>u. withKey (key u) u) a) (map (\<lambda>u. withKey (key' u) u) b) =
     map_sum id (map (\<lambda>u. withKey (key u) u)) (findUnfollowers a b)"
  "findNewFollowers (map (\<lambda>u. withKey (key' u) u) b) (map (\<lambda>u. withKey (key u) u) a) =
     map_sum id (map (\<lambda>u. withKey (key u) u)) (findNewFollowers b a)"
  "findNotFollowingBack (map (\<lambda>u. withKey (key' u) u) b) (map (\<lambda>u. withKey (key u) u) a) =
     map_sum id (map (\<lambda>u. withKey (key u) u)) (findNotFollowingBack b a)"
  by (cases "mapE lowerName b";
      simp add: findUnfollowers_def findNewFollowers_def findNotFollowingBack_def
        mapE_lowerName_withKey filterE_withKey)+

lemma tabUsers_ignores_stored_key:
  assumes "currentTab c = ''notFollowingBack'' \<or> currentTab c = ''whitelist''"
  shows "tabUsers c (r\<lparr>notFollowingBack := map (\<lambda>u. withKey (key u) u) (notFollowingBack r)\<rparr>) =
     map_sum id (map (\<lambda>u. withKey (key u) u)) (tabUsers c r)"
  using assms by (auto simp: tabUsers_def filterE_withKey)

lemma user_record_key:
  assumes "isUserRecord u"
  shows "\<exists>s. field u ''username'' = Some (JStr s) \<and> lowerName u = Inr (toLowerCase s)
           \<and> normalizedKey u = toLowerCase s"
  using assms
  by (cases u)
    (auto simp: isUserRecord_def normalizedKey_def lowerName_def split: option.splits json.splits)


text \<open>
  C9 (as amended). Every record either normalizer produces has exactly the properties
  \<^verbatim>\<open>username\<close>, \<^verbatim>\<open>timestamp\<close> and \<^verbatim>\<open>href\<close>, hence no stored normalized key. Every check
  computes its key where it is needed, by lower-casing the record's \<^verbatim>\<open>username\<close>: the
  three engine functions compare the lower-cased usernames, the \<^verbatim>\<open>notFollowingBack\<close> and
  \<^verbatim>\<open>whitelist\<close> views test the lower-cased username against the whitelist, and the
  whitelist operations lower-case the name they are given. A \<^verbatim>\<open>normalizedKey\<close> property
  stored in the records, whatever it holds, changes no result of the engine or of the
  views: they select the same records.
\<close>

theorem records_have_three_fields:
  "(parseFollowers j = Inr us \<or> parseFollowing j = Inr us \<longrightarrow>
      (\<forall>u \<in> set us. propertyNames u = [''username'', ''timestamp'', ''href'']
                    \<and> getProp u ''normalizedKey'' = Inr None))
   \<and> (\<forall>u. isUserRecord u \<longrightarrow>
         (\<exists>s. field u ''username'' = Some (JStr s) \<and> lowerName u = Inr (toLowerCase s)
              \<and> normalizedKey u = toLowerCase s))
   \<and> ((\<forall>u \<in> set a \<union> set b. isUserRecord u) \<longrightarrow>
         findUnfollowers a b = Inr (filter (\<lambda>u. normalizedKey u \<notin> normalizedKey ` set b) a)
       \<and> findNewFollowers b a = Inr (filter (\<lambda>u. normalizedKey u \<notin> normalizedKey ` set b) a)
       \<and> findNotFollowingBack b a =
           Inr (filter (\<lambda>u. normalizedKey u \<notin> normalizedKey ` set b) a))
   \<and> findUnfollowers (map (\<lambda>u. withKey (key u) u) a) (map (\<lambda>u. withKey (key' u) u) b) =
       map_sum id (map (\<lambda>u. withKey (key u) u)) (findUnfollowers a b)
   \<and> findNewFollowers (map (\<lambda>u. withKey (key' u) u) b) (map (\<lambda>u. withKey (key u) u) a) =
       map_sum id (map (\<lambda>u. withKey (key u) u)) (findNewFollowers b a)
   \<and> findNotFollowingBack (map (\<lambda>u. withKey (key' u) u) b) (map (\<lambda>u. withKey (key u) u) a) =
       map_sum id (map (\<lambda>u. withKey (key u) u)) (findNotFollowingBack b a)
   \<and> ((\<forall>x \<in> set (notFollowingBack r). isUserRecord x) \<longrightarrow>
         tabUsers (c\<lparr>currentTab := ''notFollowingBack''\<rparr>) r =
           Inr (filter (\<lambda>x. normalizedKey x \<notin> set (whitelist c)) (notFollowingBack r))
       \<and> tabUsers (c\<lparr>currentTab := ''whitelist''\<rparr>) r =
           Inr (filter (\<lambda>x. normalizedKey x \<in> set (whitelist c)) (notFollowingBack r)))
   \<and> (currentTab c = ''notFollowingBack'' \<or> currentTab c = ''whitelist'' \<longrightarrow>
         tabUsers c
           (r\<lparr>notFollowingBack := map (\<lambda>u. withKey (key u) u) (notFollowingBack r)\<rparr>) =
         map_sum id (map (\<lambda>u. withKey (key u) u)) (tabUsers c r))
   \<and> isWhitelisted d s = (toLowerCase s \<in> set (getWhitelist d))
   \<and> getWhitelist (removeFromWhitelist d s) =
       filter (\<lambda>k. k \<noteq> toLowerCase s) (getWhitelist d)
   \<and> (isAvailable d \<and> toLowerCase s \<notin> set (getWhitelist d) \<longrightarrow>
         getWhitelist (addToWhitelist d s) = getWhitelist d @ [toLowerCase s])"
proof -
  have shape: "\<forall>u \<in> set us. propertyNames u = [''username'', ''timestamp'', ''href'']
                    \<and> getProp u ''normalizedKey'' = Inr None"
    if "parseFollowers j = Inr us \<or> parseFollowing j = Inr us"
  proof
    fix u
    assume "u \<in> set us"
    with that have "recordShape u"
      using parseFollowers_names parseFollowing_names by blast
    then show "propertyNames u = [''username'', ''timestamp'', ''href'']
                    \<and> getProp u ''normalizedKey'' = Inr None"
      by (simp add: recordShape_no_key) (simp add: recordShape_def)
  qed
  have engine: "findUnfollowers a b = Inr (filter (\<lambda>u. normalizedKey u \<notin> normalizedKey ` set b) a)
       \<and> findNewFollowers b a = Inr (filter (\<lambda>u. normalizedKey u \<notin> normalizedKey ` set b) a)
       \<and> findNotFollowingBack b a =
           Inr (filter (\<lambda>u. normalizedKey u \<notin> normalizedKey ` set b) a)"
    if "\<forall>u \<in> set a \<union> set b. isUserRecord u"
    using engine_on_user_records [OF that] by simp
  have views: "tabUsers (c\<lparr>currentTab := ''notFollowingBack''\<rparr>) r =
           Inr (filter (\<lambda>x. normalizedKey x \<notin> set (whitelist c)) (notFollowingBack r))
       \<and> tabUsers (c\<lparr>currentTab := ''whitelist''\<rparr>) r =
           Inr (filter (\<lambda>x. normalizedKey x \<in> set (whitelist c)) (notFollowingBack r))"
    if "\<forall>x \<in> set (notFollowingBack r). isUserRecord x"
    using tabUsers_notFollowingBack [OF that, of "c\<lparr>currentTab := ''notFollowingBack''\<rparr>"]
      tabUsers_whitelist [OF that, of "c\<lparr>currentTab := ''whitelist''\<rparr>"]
    by simp
  have add: "getWhitelist (addToWhitelist d s) = getWhitelist d @ [toLowerCase s]"
    if "isAvailable d \<and> toLowerCase s \<notin> set (getWhitelist d)"
    using that by (simp add: addToWhitelist_def getWhitelist_saveSetting)
  show ?thesis
    using shape engine views add user_record_key
      engine_ignores_stored_key [where key = key and a = a and key' = key' and b = b]
      tabUsers_ignores_stored_key [where c = c and r = r and key = key]
      getWhitelist_removeFromWhitelist [where d = d and u = s]
    by (simp add: isWhitelisted_def)
qed

theorem records_have_three_fields_witness:
  "parseFollowers (exportFollowers [''Alice'']) = Inr [plainRecord ''Alice'']
   \<and> getProp (plainRecord ''Alice'') ''normalizedKey'' = Inr None
   \<and> lowerName (plainRecord ''Alice'') = Inr ''alice''
   \<and> findUnfollowers [withKey (JStr ''stale'') (plainRecord ''Alice'')] [plainRecord ''ALICE'']
       = Inr []
   \<and> findUnfollowers [plainRecord ''Alice''] [plainRecord ''ALICE''] = Inr []"
proof -
  have p: "parseFollowers (exportFollowers [''Alice'']) = Inr [plainRecord ''Alice'']"
    by (simp add: parseFollowers_def exportFollowers_def plainRecord_def entriesGuarded_def
        pushEntry_def userRecord_def)
  from records_have_three_fields
    [of "exportFollowers [''Alice'']" "[plainRecord ''Alice'']" "[plainRecord ''Alice'']"
        "[plainRecord ''ALICE'']" "\<lambda>u. JStr ''stale''" "\<lambda>u. JNull"] p
  show ?thesis
    by (simp add: plainRecord_def isUserRecord_def normalizedKey_def lowerName_def
        toLowerCase_def toLowerChar_def findUnfollowers_def)
qed


text \<open>
  The claim as stated fails: the record made from the entry \<^verbatim>\<open>{"value": "Alice"}\<close> has no
  \<^verbatim>\<open>normalizedKey\<close> property.
\<close>

theorem records_lack_normalizedKey:
  "parseFollowers (JArr [JObj [(''string_list_data'', JArr [JObj [(''value'', JStr ''Alice'')]])]])
     = Inr [JObj [(''username'', JStr ''Alice''), (''timestamp'', JNull), (''href'', JNull)]]
   \<and> field (JObj [(''username'', JStr ''Alice''), (''timestamp'', JNull), (''href'', JNull)])
       ''normalizedKey'' = None"
  by (simp add: parseFollowers_def entriesGuarded_def pushEntry_def userRecord_def)

end
